theory Spec2Isabelle
  imports Complex_Main "HOL-Library.Sublist" "HOL-Library.Multiset"
begin

section \<open>Timeline data (core types)\<close>

text \<open>
  The records of the core types that the engines read.  A JavaScript \<^verbatim>\<open>number\<close> is a
  binary64 floating-point number and is modelled as the real number it denotes; no
  \<^verbatim>\<open>NaN\<close> and no infinity exists in the model.  Comparisons, \<^verbatim>\<open>Math.max\<close>,
  \<^verbatim>\<open>Math.min\<close>, \<^verbatim>\<open>Math.round\<close> and \<^verbatim>\<open>toFixed\<close> are exact on such numbers.  Where the
  program multiplies, divides or subtracts numbers that need not be whole (the
  compiler's \<^verbatim>\<open>toSeconds\<close>, the view transform), and where the transcoder evaluates
  an expression, every result is rounded to binary64 (section on binary64 rounding
  below).  The times of the auto-zoom engine are millisecond counts (an event's
  \<^verbatim>\<open>atMs\<close> is a difference of two \<^verbatim>\<open>Date.now()\<close> readings), whose sums and differences
  binary64 computes without rounding, so \<open>+\<close> and \<open>-\<close> are the exact ones there.  An
  optional field is an \<open>option\<close>.  Field names that two records share carry the
  record's name as a prefix.
\<close>

datatype EventKind = Click | Typing | Focus | Cursor

datatype AutoZoomSignal = SignalClick | SignalTyping | SignalFocus

datatype ZoomMode = Auto | Manual

record RecordingEvent =
  eventId :: string
  kind :: EventKind
  atMs :: real
  eventXNorm :: "real option"
  eventYNorm :: "real option"

record NormPoint =
  xNorm :: real
  yNorm :: real

record ZoomSegment =
  segmentId :: string
  startMs :: real
  endMs :: real
  level :: real
  mode :: ZoomMode
  manualTarget :: "NormPoint option"
  instant :: bool
  disabled :: bool
  sourceSignal :: "AutoZoomSignal option"

section \<open>Auto-zoom segmentation engine\<close>

record AutoZoomOptions =
  includeClicks :: bool
  includeTyping :: bool
  includeFocus :: bool
  defaultZoomLevel :: real
  segmentMs :: real
  mergeGapMs :: real

text \<open>\<^verbatim>\<open>Partial<AutoZoomOptions>\<close>: every field may be absent.\<close>

record PartialAutoZoomOptions =
  includeClicksOpt :: "bool option"
  includeTypingOpt :: "bool option"
  includeFocusOpt :: "bool option"
  defaultZoomLevelOpt :: "real option"
  segmentMsOpt :: "real option"
  mergeGapMsOpt :: "real option"

definition defaultAutoZoomOptions :: AutoZoomOptions where
  "defaultAutoZoomOptions =
     \<lparr>includeClicks = True, includeTyping = True, includeFocus = True,
      defaultZoomLevel = 18 / 10, segmentMs = 1500, mergeGapMs = 280\<rparr>"

definition noOptions :: PartialAutoZoomOptions where
  "noOptions =
     \<lparr>includeClicksOpt = None, includeTypingOpt = None, includeFocusOpt = None,
      defaultZoomLevelOpt = None, segmentMsOpt = None, mergeGapMsOpt = None\<rparr>"

text \<open>The object spread \<^verbatim>\<open>{ ...defaultAutoZoomOptions, ...options }\<close>.\<close>

definition mergeOptions :: "AutoZoomOptions \<Rightarrow> PartialAutoZoomOptions \<Rightarrow> AutoZoomOptions" where
  "mergeOptions defaults options =
     \<lparr>includeClicks = (case includeClicksOpt options of Some v \<Rightarrow> v | None \<Rightarrow> includeClicks defaults),
      includeTyping = (case includeTypingOpt options of Some v \<Rightarrow> v | None \<Rightarrow> includeTyping defaults),
      includeFocus = (case includeFocusOpt options of Some v \<Rightarrow> v | None \<Rightarrow> includeFocus defaults),
      defaultZoomLevel =
        (case defaultZoomLevelOpt options of Some v \<Rightarrow> v | None \<Rightarrow> defaultZoomLevel defaults),
      segmentMs = (case segmentMsOpt options of Some v \<Rightarrow> v | None \<Rightarrow> segmentMs defaults),
      mergeGapMs = (case mergeGapMsOpt options of Some v \<Rightarrow> v | None \<Rightarrow> mergeGapMs defaults)\<rparr>"

fun shouldUseEvent :: "RecordingEvent \<Rightarrow> AutoZoomOptions \<Rightarrow> bool" where
  "shouldUseEvent event options =
     (if kind event = Click then includeClicks options
      else if kind event = Typing then includeTyping options
      else if kind event = Focus then includeFocus options
      else False)"

fun toSignal :: "EventKind \<Rightarrow> AutoZoomSignal" where
  "toSignal k =
     (if k = Click then SignalClick else if k = Typing then SignalTyping else SignalFocus)"

text \<open>
  The body of the \<^verbatim>\<open>map\<close> callback.  \<^verbatim>\<open>crypto.randomUUID()\<close> is the only effect of
  \<^verbatim>\<open>buildAutoZooms\<close>; the identifier it returns is passed in as \<open>newId\<close>.
\<close>

definition toCandidate ::
  "AutoZoomOptions \<Rightarrow> real \<Rightarrow> string \<Rightarrow> RecordingEvent \<Rightarrow> ZoomSegment" where
  "toCandidate mergedOptions durationMs newId event =
     (let x = (case eventXNorm event of Some v \<Rightarrow> v | None \<Rightarrow> 1 / 2);
          y = (case eventYNorm event of Some v \<Rightarrow> v | None \<Rightarrow> 1 / 2)
      in \<lparr>segmentId = newId,
          startMs = max 0 (atMs event - 120),
          endMs = min durationMs (atMs event + segmentMs mergedOptions),
          level = defaultZoomLevel mergedOptions,
          mode = Auto,
          manualTarget = Some \<lparr>xNorm = x, yNorm = y\<rparr>,
          instant = False,
          disabled = False,
          sourceSignal = Some (toSignal (kind event))\<rparr>)"

text \<open>
  One round of the merge loop over \<^verbatim>\<open>raw\<close>.  The source mutates the last element
  of \<^verbatim>\<open>merged\<close> in place; here the list is rebuilt with its last element replaced.
  (The mutated object is also an element of \<^verbatim>\<open>raw\<close>, one the loop has passed and
  does not read again.)
\<close>

definition mergeStep :: "AutoZoomOptions \<Rightarrow> ZoomSegment list \<Rightarrow> ZoomSegment \<Rightarrow> ZoomSegment list" where
  "mergeStep mergedOptions merged segment =
     (if merged = [] then [segment]
      else
        let lastSeg = last merged;
            sameSignal = (sourceSignal lastSeg = sourceSignal segment);
            closeEnough = (startMs segment - endMs lastSeg \<le> mergeGapMs mergedOptions)
        in if sameSignal \<and> closeEnough
           then
             let extended = lastSeg\<lparr>endMs := max (endMs lastSeg) (endMs segment)\<rparr>;
                 retargeted =
                   (case manualTarget segment of
                      Some target \<Rightarrow> extended\<lparr>manualTarget := Some target\<rparr>
                    | None \<Rightarrow> extended)
             in butlast merged @ [retargeted]
           else merged @ [segment])"

text \<open>
  \<^verbatim>\<open>buildAutoZooms(events, durationMs, options)\<close>.  \<^verbatim>\<open>Array.prototype.sort\<close> is a
  stable sort, and the comparator \<^verbatim>\<open>a.atMs - b.atMs\<close> orders by ascending \<^verbatim>\<open>atMs\<close>:
  that is \<open>sort_key atMs\<close>.  \<open>uuid i\<close> is the identifier the \<open>i\<close>-th call of
  \<^verbatim>\<open>crypto.randomUUID()\<close> returns (the callback runs once per kept event, in order).
\<close>

definition buildAutoZooms ::
  "(nat \<Rightarrow> string) \<Rightarrow> RecordingEvent list \<Rightarrow> real \<Rightarrow> PartialAutoZoomOptions \<Rightarrow> ZoomSegment list" where
  "buildAutoZooms uuid events durationMs options =
     (let mergedOptions = mergeOptions defaultAutoZoomOptions options;
          sorted = sort_key atMs events;
          raw = map (\<lambda>(i, event). toCandidate mergedOptions durationMs (uuid i) event)
                  (enumerate 0 (filter (\<lambda>event. shouldUseEvent event mergedOptions) sorted))
      in if length raw < 2 then raw
         else foldl (mergeStep mergedOptions) [] raw)"

text \<open>
  The separation the merge loop leaves between neighbours: two segments of the same
  source signal are further apart than the merge gap (start of the later one minus
  end of the earlier one).
\<close>

definition separated :: "real \<Rightarrow> ZoomSegment \<Rightarrow> ZoomSegment \<Rightarrow> bool" where
  "separated gap a b = (sourceSignal a = sourceSignal b \<longrightarrow> gap < startMs b - endMs a)"

text \<open>Events for worked examples: a click or a key press at a time, with a target.\<close>

definition eventAt :: "EventKind \<Rightarrow> real \<Rightarrow> real \<Rightarrow> real \<Rightarrow> RecordingEvent" where
  "eventAt k t x y = \<lparr>eventId = ''e'', kind = k, atMs = t, eventXNorm = Some x, eventYNorm = Some y\<rparr>"

section \<open>Encoder negotiation\<close>

text \<open>
  \<^verbatim>\<open>EncoderChoice\<close> is the string-literal union of the render engine
  (\<^verbatim>\<open>packages/render-engine/src/index.ts\<close>, line 4); \<open>encoderName\<close> gives the
  string each member is at run time.  \<^verbatim>\<open>ExportSettings["encoderHint"]\<close> is the
  enum \<^verbatim>\<open>auto | nvenc | qsv | amf | mpeg4\<close> of the core types.
\<close>

datatype EncoderChoice = H264_nvenc | H264_qsv | H264_amf | Libx264 | Mpeg4

datatype EncoderHint = HintAuto | HintNvenc | HintQsv | HintAmf | HintMpeg4

fun encoderName :: "EncoderChoice \<Rightarrow> string" where
  "encoderName H264_nvenc = ''h264_nvenc''"
| "encoderName H264_qsv = ''h264_qsv''"
| "encoderName H264_amf = ''h264_amf''"
| "encoderName Libx264 = ''libx264''"
| "encoderName Mpeg4 = ''mpeg4''"

text \<open>
  \<^verbatim>\<open>pickEncoder(available: string[], hint)\<close>: the four hint tests in the order of
  the source, then the loop over the three hardware encoders (\<open>firstAvailable\<close>, which
  returns from inside the loop at the first hit), then \<^verbatim>\<open>libx264\<close>, then \<^verbatim>\<open>mpeg4\<close>.
\<close>

fun firstAvailable :: "string list \<Rightarrow> EncoderChoice list \<Rightarrow> EncoderChoice option" where
  "firstAvailable available [] = None"
| "firstAvailable available (candidate # rest) =
     (if encoderName candidate \<in> set available then Some candidate
      else firstAvailable available rest)"

definition pickEncoder :: "string list \<Rightarrow> EncoderHint \<Rightarrow> EncoderChoice" where
  "pickEncoder available hint =
     (if hint = HintNvenc \<and> ''h264_nvenc'' \<in> set available then H264_nvenc
      else if hint = HintQsv \<and> ''h264_qsv'' \<in> set available then H264_qsv
      else if hint = HintAmf \<and> ''h264_amf'' \<in> set available then H264_amf
      else if hint = HintMpeg4 \<and> ''mpeg4'' \<in> set available then Mpeg4
      else (case firstAvailable available [H264_nvenc, H264_qsv, H264_amf] of
              Some candidate \<Rightarrow> candidate
            | None \<Rightarrow> if ''libx264'' \<in> set available then Libx264 else Mpeg4))"

text \<open>
  \<^verbatim>\<open>buildEncoderAttempts\<close> (main-process render service): the closure
  \<^verbatim>\<open>push\<close> appends to the local array \<^verbatim>\<open>attempts\<close> unless the encoder is already
  in it; the array is threaded through explicitly.
\<close>

definition ENCODER_PRIORITY :: "EncoderChoice list" where
  "ENCODER_PRIORITY = [H264_nvenc, H264_qsv, H264_amf, Libx264, Mpeg4]"

definition push :: "EncoderChoice list \<Rightarrow> EncoderChoice \<Rightarrow> EncoderChoice list" where
  "push attempts encoder = (if encoder \<in> set attempts then attempts else attempts @ [encoder])"

definition pushIfAvailable ::
  "EncoderChoice list \<Rightarrow> EncoderChoice list \<Rightarrow> EncoderChoice \<Rightarrow> EncoderChoice list" where
  "pushIfAvailable available attempts encoder =
     (if encoder \<in> set available then push attempts encoder else attempts)"

definition buildEncoderAttempts :: "EncoderChoice list \<Rightarrow> EncoderChoice \<Rightarrow> EncoderChoice list" where
  "buildEncoderAttempts available preferred =
     (let attempts0 = push [] preferred;
          attempts1 = foldl (pushIfAvailable available) attempts0 ENCODER_PRIORITY;
          attempts2 = push attempts1 Libx264;
          attempts3 = push attempts2 Mpeg4
      in attempts3)"

text \<open>
  The chain as the specification words it: the preferred encoder, then the priority
  list restricted to the available encoders, then the two software encoders, with
  every repeated entry dropped where it is not the first of its kind.  \<open>uniqFrom seen\<close>
  keeps an element iff it is neither in \<open>seen\<close> nor earlier in the list.
\<close>

primrec uniqFrom :: "'a list \<Rightarrow> 'a list \<Rightarrow> 'a list" where
  "uniqFrom seen [] = []"
| "uniqFrom seen (x # xs) =
     (if x \<in> set seen then uniqFrom seen xs else x # uniqFrom (seen @ [x]) xs)"

definition dedupeFirst :: "'a list \<Rightarrow> 'a list" where
  "dedupeFirst xs = uniqFrom [] xs"

definition specEncoderAttempts :: "EncoderChoice list \<Rightarrow> EncoderChoice \<Rightarrow> EncoderChoice list" where
  "specEncoderAttempts available preferred =
     dedupeFirst (preferred # filter (\<lambda>encoder. encoder \<in> set available) ENCODER_PRIORITY
                  @ [Libx264, Mpeg4])"

section \<open>Binary64 rounding\<close>

text \<open>
  The result of an arithmetic operation on binary64 numbers is the exact result rounded
  to the nearest binary64 number, the one with the even significand on a tie:
  \<open>binary64 x\<close> for the exact result \<open>x\<close>.  A binary64 number other than 0 has a
  significand of 53 bits: with \<open>e\<close> the exponent of \<open>x\<close>, \<open>2^e \<le> \<bar>x\<bar> < 2^(e+1)\<close>, the
  binary64 numbers around \<open>x\<close> are the whole multiples of \<open>2^(e-52)\<close>, and \<open>roundEven\<close>
  picks the nearest whole number, the even one on a tie.  The exponent is not bounded
  in this model: \<open>binary64 x\<close> is the IEEE 754 result for \<open>x = 0\<close> and for
  \<open>2^(-1022) \<le> \<bar>x\<bar> < 2^1024\<close>; there are no subnormal numbers and no overflow.
\<close>

definition roundEven :: "real \<Rightarrow> int" where
  "roundEven y =
     (let f = \<lfloor>y\<rfloor>
      in if y - of_int f < 1 / 2 then f
         else if 1 / 2 < y - of_int f then f + 1
         else if even f then f else f + 1)"

definition binary64 :: "real \<Rightarrow> real" where
  "binary64 x =
     (if x = 0 then 0
      else
        let e = \<lfloor>log 2 \<bar>x\<bar>\<rfloor>;
            ulp = 2 powr (of_int e - 52)
        in of_int (roundEven (x / ulp)) * ulp)"

section \<open>Numbers as text\<close>

text \<open>
  The compiler writes numbers into the filter graph as decimal text and the transcoder
  reads them back.  \<open>natToString\<close> and \<open>intToString\<close> are \<^verbatim>\<open>String(n)\<close> (template
  interpolation) of an integer; \<open>toFixed f x\<close> is \<^verbatim>\<open>x.toFixed(f)\<close> for \<open>\<bar>x\<bar> < 10^21\<close>:
  the sign, then the integer \<open>n\<close> nearest to \<open>\<bar>x\<bar> * 10^f\<close> (the larger one on a tie)
  printed with at least \<open>f + 1\<close> digits and a point before the last \<open>f\<close>.
  \<open>decimalValue\<close> is the number a decimal literal denotes; the transcoder's expression
  reader rounds it to binary64 (\<open>literalValue\<close> below).
\<close>

definition digitChar :: "nat \<Rightarrow> char" where
  "digitChar n = ''0123456789'' ! n"

definition digitValue :: "char \<Rightarrow> nat" where
  "digitValue c = length (takeWhile (\<lambda>d. d \<noteq> c) ''0123456789'')"

fun natToString :: "nat \<Rightarrow> string" where
  "natToString n =
     (if n < 10 then [digitChar n] else natToString (n div 10) @ [digitChar (n mod 10)])"

declare natToString.simps [simp del]

definition intToString :: "int \<Rightarrow> string" where
  "intToString i = (if i < 0 then ''-'' @ natToString (nat (- i)) else natToString (nat i))"

definition toFixed :: "nat \<Rightarrow> real \<Rightarrow> string" where
  "toFixed f x =
     (let s = (if x < 0 then ''-'' else '''');
          n = nat \<lfloor>\<bar>x\<bar> * 10 ^ f + 1 / 2\<rfloor>;
          m = natToString n;
          k = length m;
          padded = (if k \<le> f then replicate (f + 1 - k) (CHR ''0'') @ m else m);
          a = take (length padded - f) padded;
          b = drop (length padded - f) padded
      in if f = 0 then s @ padded else s @ a @ ''.'' @ b)"

definition digitsValue :: "string \<Rightarrow> nat" where
  "digitsValue ds = foldl (\<lambda>acc c. 10 * acc + digitValue c) 0 ds"

definition decimalValue :: "string \<Rightarrow> real" where
  "decimalValue s =
     (let negative = (s \<noteq> [] \<and> hd s = CHR ''-'');
          body = (if negative then tl s else s);
          whole = takeWhile (\<lambda>c. c \<noteq> CHR ''.'') body;
          fraction = drop 1 (dropWhile (\<lambda>c. c \<noteq> CHR ''.'') body);
          magnitude = real (digitsValue whole) + real (digitsValue fraction) / 10 ^ length fraction
      in if negative then - magnitude else magnitude)"

text \<open>The value \<open>x.toFixed(f)\<close> keeps of \<open>x\<close>: \<open>x\<close> rounded to \<open>f\<close> decimals, ties away from zero.\<close>

definition fixedValue :: "nat \<Rightarrow> real \<Rightarrow> real" where
  "fixedValue f x =
     (if x < 0 then - (real_of_int \<lfloor>\<bar>x\<bar> * 10 ^ f + 1 / 2\<rfloor> / 10 ^ f)
      else real_of_int \<lfloor>\<bar>x\<bar> * 10 ^ f + 1 / 2\<rfloor> / 10 ^ f)"

text \<open>\<^verbatim>\<open>Math.round\<close>: the nearest integer, the larger one on a tie.\<close>

definition mathRound :: "real \<Rightarrow> int" where
  "mathRound x = \<lfloor>x + 1 / 2\<rfloor>"

section \<open>Transcoder expressions\<close>

text \<open>
  The expressions the compiler hands to the transcoder, as syntax trees; \<open>render\<close> is
  the text of a tree, character for character what the template strings of the source
  produce, and \<open>eval\<close> is the value the transcoder's expression language gives it for
  a frame at time \<open>t\<close> (seconds) of input width \<open>iw\<close> and height \<open>ih\<close>.  The
  transcoder computes in binary64: a decimal literal is read as the binary64 number
  nearest to the number it denotes (\<open>literalValue\<close>), products, differences and
  quotients are rounded, and comparisons, \<^verbatim>\<open>max\<close> and \<^verbatim>\<open>min\<close> are exact.
  \<^verbatim>\<open>if(c,a,b)\<close> is \<open>a\<close> when \<open>c\<close> is not zero and \<open>b\<close> otherwise, and
  \<^verbatim>\<open>between(x,lo,hi)\<close> is 1 when \<open>lo \<le> x \<le> hi\<close> and 0 otherwise.  \<open>EParen\<close> is a pair
  of parentheses the templates write; products and quotients bind tighter than
  differences and associate to the left, as the trees of the crop templates below
  have them.
\<close>

datatype fexpr =
    ELit string
  | ET
  | EIw
  | EIh
  | EParen fexpr
  | EIf fexpr fexpr fexpr
  | EBetween fexpr fexpr fexpr
  | EMax fexpr fexpr
  | EMin fexpr fexpr
  | EMul fexpr fexpr
  | ESub fexpr fexpr
  | EDiv fexpr fexpr

fun render :: "fexpr \<Rightarrow> string" where
  "render (ELit s) = s"
| "render ET = ''t''"
| "render EIw = ''iw''"
| "render EIh = ''ih''"
| "render (EParen e) = ''('' @ render e @ '')''"
| "render (EIf c a b) = ''if('' @ render c @ '','' @ render a @ '','' @ render b @ '')''"
| "render (EBetween x lo hi) =
     ''between('' @ render x @ '','' @ render lo @ '','' @ render hi @ '')''"
| "render (EMax a b) = ''max('' @ render a @ '','' @ render b @ '')''"
| "render (EMin a b) = ''min('' @ render a @ '','' @ render b @ '')''"
| "render (EMul a b) = render a @ ''*'' @ render b"
| "render (ESub a b) = render a @ ''-'' @ render b"
| "render (EDiv a b) = render a @ ''/'' @ render b"

definition literalValue :: "string \<Rightarrow> real" where
  "literalValue s = binary64 (decimalValue s)"

fun eval :: "real \<Rightarrow> real \<Rightarrow> real \<Rightarrow> fexpr \<Rightarrow> real" where
  "eval t iw ih (ELit s) = literalValue s"
| "eval t iw ih ET = t"
| "eval t iw ih EIw = iw"
| "eval t iw ih EIh = ih"
| "eval t iw ih (EParen e) = eval t iw ih e"
| "eval t iw ih (EIf c a b) = (if eval t iw ih c \<noteq> 0 then eval t iw ih a else eval t iw ih b)"
| "eval t iw ih (EBetween x lo hi) =
     (if eval t iw ih lo \<le> eval t iw ih x \<and> eval t iw ih x \<le> eval t iw ih hi then 1 else 0)"
| "eval t iw ih (EMax a b) = max (eval t iw ih a) (eval t iw ih b)"
| "eval t iw ih (EMin a b) = min (eval t iw ih a) (eval t iw ih b)"
| "eval t iw ih (EMul a b) = binary64 (eval t iw ih a * eval t iw ih b)"
| "eval t iw ih (ESub a b) = binary64 (eval t iw ih a - eval t iw ih b)"
| "eval t iw ih (EDiv a b) = binary64 (eval t iw ih a / eval t iw ih b)"

section \<open>Render plan compiler\<close>

text \<open>
  The fields of the project file that the compiler and the executor read.  The schema
  makes \<^verbatim>\<open>width\<close>, \<^verbatim>\<open>height\<close> and \<^verbatim>\<open>fps\<close> integers; \<^verbatim>\<open>padding\<close> and \<^verbatim>\<open>inset\<close> are
  numbers.  The field \<^verbatim>\<open>export\<close> is \<open>exportSettings\<close> here and \<^verbatim>\<open>type\<close> is
  \<open>backgroundType\<close>.
\<close>

datatype BackgroundType = Wallpaper | Gradient | Color | Image | NoBackground

record BackgroundSettings =
  backgroundType :: BackgroundType
  gradientFrom :: string
  color :: string
  padding :: real
  inset :: real

record ExportSettings =
  width :: int
  height :: int
  fps :: int
  encoderHint :: EncoderHint

record Timeline =
  zooms :: "ZoomSegment list"
  background :: BackgroundSettings

record ProjectFileV1 =
  timeline :: Timeline
  exportSettings :: ExportSettings

definition backgroundColor :: "BackgroundSettings \<Rightarrow> string" where
  "backgroundColor bg =
     (if backgroundType bg = Color then color bg
      else if backgroundType bg = Gradient then gradientFrom bg
      else ''#0f172a'')"

text \<open>\<^verbatim>\<open>s.replaceAll(",", "\\,")\<close> and \<^verbatim>\<open>s.replace("#", "0x")\<close> (first occurrence only).\<close>

definition escapeExpressionCommas :: "string \<Rightarrow> string" where
  "escapeExpressionCommas expression =
     concat (map (\<lambda>c. if c = CHR '','' then [CHR 0x5C, CHR '',''] else [c]) expression)"

fun replaceFirstHash :: "string \<Rightarrow> string" where
  "replaceFirstHash [] = []"
| "replaceFirstHash (c # cs) = (if c = CHR ''#'' then ''0x'' @ cs else c # replaceFirstHash cs)"

definition computeFrameMargin :: "ProjectFileV1 \<Rightarrow> ExportSettings \<Rightarrow> int" where
  "computeFrameMargin project settings =
     (let bg = background (timeline project);
          requestedMargin = max 0 (mathRound (padding bg) + mathRound (inset bg));
          maxAllowedMargin = max 0 (min ((width settings - 2) div 2) ((height settings - 2) div 2))
      in min requestedMargin maxAllowedMargin)"

text \<open>
  \<^verbatim>\<open>(ms / 1000).toFixed(3)\<close>: the quotient is a binary64 number, printed exactly.  (A
  quotient below the range in which \<open>binary64\<close> is the IEEE 754 rounding is printed as
  \<^verbatim>\<open>0.000\<close> or \<^verbatim>\<open>-0.000\<close> under either.)
\<close>

definition toSeconds :: "real \<Rightarrow> string" where
  "toSeconds ms = toFixed 3 (binary64 (ms / 1000))"

text \<open>
  \<^verbatim>\<open>toPiecewiseExpression\<close>: the loop runs from the last segment to the first and wraps
  the expression built so far, which is \<open>foldr\<close>.
\<close>

definition wrapSegment :: "(ZoomSegment \<Rightarrow> string) \<Rightarrow> ZoomSegment \<Rightarrow> fexpr \<Rightarrow> fexpr" where
  "wrapSegment pickValue segment expression =
     EIf (EBetween ET (ELit (toSeconds (startMs segment))) (ELit (toSeconds (endMs segment))))
         (ELit (pickValue segment))
         expression"

definition toPiecewiseExpression ::
  "ZoomSegment list \<Rightarrow> (ZoomSegment \<Rightarrow> string) \<Rightarrow> string \<Rightarrow> fexpr" where
  "toPiecewiseExpression segments pickValue fallback =
     (if length segments = 0 then ELit fallback
      else foldr (wrapSegment pickValue) segments (ELit fallback))"

definition activeZoomsOf :: "ProjectFileV1 \<Rightarrow> ZoomSegment list" where
  "activeZoomsOf project =
     filter (\<lambda>segment. \<not> disabled segment \<and> level segment > 1) (zooms (timeline project))"

definition pickLevel :: "ZoomSegment \<Rightarrow> string" where
  "pickLevel segment = toFixed 4 (max 1 (level segment))"

definition pickXNorm :: "ZoomSegment \<Rightarrow> string" where
  "pickXNorm segment =
     toFixed 4 (case manualTarget segment of Some target \<Rightarrow> xNorm target | None \<Rightarrow> 1 / 2)"

definition pickYNorm :: "ZoomSegment \<Rightarrow> string" where
  "pickYNorm segment =
     toFixed 4 (case manualTarget segment of Some target \<Rightarrow> yNorm target | None \<Rightarrow> 1 / 2)"

definition zoomExpression :: "ZoomSegment list \<Rightarrow> fexpr" where
  "zoomExpression activeZooms = toPiecewiseExpression activeZooms pickLevel ''1''"

definition xNormExpression :: "ZoomSegment list \<Rightarrow> fexpr" where
  "xNormExpression activeZooms = toPiecewiseExpression activeZooms pickXNorm ''0.5''"

definition yNormExpression :: "ZoomSegment list \<Rightarrow> fexpr" where
  "yNormExpression activeZooms = toPiecewiseExpression activeZooms pickYNorm ''0.5''"

text \<open>
  The trees of the two crop templates,
  \<^verbatim>\<open>max(0,min(iw*(Z)-iw,iw*(X)*(Z)-iw/2))\<close> and the same with \<^verbatim>\<open>ih\<close> and \<open>Y\<close>.
\<close>

definition cropXExpression :: "ZoomSegment list \<Rightarrow> fexpr" where
  "cropXExpression activeZooms =
     EMax (ELit ''0'')
       (EMin (ESub (EMul EIw (EParen (zoomExpression activeZooms))) EIw)
             (ESub (EMul (EMul EIw (EParen (xNormExpression activeZooms)))
                         (EParen (zoomExpression activeZooms)))
                   (EDiv EIw (ELit ''2''))))"

definition cropYExpression :: "ZoomSegment list \<Rightarrow> fexpr" where
  "cropYExpression activeZooms =
     EMax (ELit ''0'')
       (EMin (ESub (EMul EIh (EParen (zoomExpression activeZooms))) EIh)
             (ESub (EMul (EMul EIh (EParen (yNormExpression activeZooms)))
                         (EParen (zoomExpression activeZooms)))
                   (EDiv EIh (ELit ''2''))))"

definition createForegroundFilter :: "ProjectFileV1 \<Rightarrow> ExportSettings \<Rightarrow> string" where
  "createForegroundFilter project settings =
     (let margin = computeFrameMargin project settings;
          innerWidth = max 2 (width settings - margin * 2);
          innerHeight = max 2 (height settings - margin * 2);
          baseScale = ''scale='' @ intToString innerWidth @ '':'' @ intToString innerHeight
            @ '':force_original_aspect_ratio=decrease:flags=lanczos,setsar=1'';
          activeZooms = activeZoomsOf project
      in if length activeZooms = 0 then baseScale
         else
           let zoomEscaped = escapeExpressionCommas (render (zoomExpression activeZooms));
               cropX = escapeExpressionCommas (render (cropXExpression activeZooms));
               cropY = escapeExpressionCommas (render (cropYExpression activeZooms));
               dynamicZoom = ''scale=iw*('' @ zoomEscaped @ ''):ih*('' @ zoomEscaped
                 @ ''):eval=frame:flags=lanczos,crop=iw:ih:'' @ cropX @ '':'' @ cropY
           in dynamicZoom @ '','' @ baseScale)"

definition createFilterGraph :: "ProjectFileV1 \<Rightarrow> ExportSettings \<Rightarrow> string" where
  "createFilterGraph project settings =
     (let color = replaceFirstHash (backgroundColor (background (timeline project)));
          foreground = createForegroundFilter project settings;
          pad = ''pad='' @ intToString (width settings) @ '':'' @ intToString (height settings)
            @ '':(ow-iw)/2:(oh-ih)/2:color='' @ color
      in foreground @ '','' @ pad)"

section \<open>View transform calculator\<close>

record ViewTransform =
  scale :: real
  xPx :: real
  yPx :: real

definition clamp :: "real \<Rightarrow> real \<Rightarrow> real \<Rightarrow> real" where
  "clamp v lo hi = min (max v lo) hi"

text \<open>
  \<^verbatim>\<open>computeViewTransform\<close>; each product, quotient and difference is a binary64
  operation, \<^verbatim>\<open>clamp\<close> only compares.
\<close>

definition computeViewTransform :: "ZoomSegment option \<Rightarrow> real \<Rightarrow> real \<Rightarrow> ViewTransform" where
  "computeViewTransform zoom frameWidth frameHeight =
     (case zoom of
        None \<Rightarrow> \<lparr>scale = 1, xPx = 0, yPx = 0\<rparr>
      | Some z \<Rightarrow>
          let scale = clamp (level z) 1 4;
              target = (case manualTarget z of Some p \<Rightarrow> p | None \<Rightarrow> \<lparr>xNorm = 1 / 2, yNorm = 1 / 2\<rparr>);
              targetXPx = binary64 (xNorm target * frameWidth);
              targetYPx = binary64 (yNorm target * frameHeight);
              viewportWidth = binary64 (frameWidth / scale);
              viewportHeight = binary64 (frameHeight / scale);
              x = clamp (binary64 (targetXPx - binary64 (viewportWidth / 2))) 0
                    (binary64 (frameWidth - viewportWidth));
              y = clamp (binary64 (targetYPx - binary64 (viewportHeight / 2))) 0
                    (binary64 (frameHeight - viewportHeight))
          in \<lparr>scale = scale, xPx = x, yPx = y\<rparr>)"

section \<open>Render plan\<close>

record RenderPlan =
  ffmpegPath :: string
  args :: "string list"
  outputPath :: string
  encoder :: EncoderChoice

text \<open>\<^verbatim>\<open>String.prototype.trim\<close> on the white space of ASCII.\<close>

definition isWhiteSpace :: "char \<Rightarrow> bool" where
  "isWhiteSpace c = (c \<in> set [CHR '' '', CHR 0x09, CHR 0x0A, CHR 0x0B, CHR 0x0C, CHR 0x0D])"

definition trim :: "string \<Rightarrow> string" where
  "trim s = rev (dropWhile isWhiteSpace (rev (dropWhile isWhiteSpace s)))"

text \<open>
  \<^verbatim>\<open>createImageBackgroundFilterGraph\<close> returns the graph and its output label, and
  \<^verbatim>\<open>createRenderPlan\<close> takes \<^verbatim>\<open>options?.backgroundImagePath\<close> as an optional string.
\<close>

definition createImageBackgroundFilterGraph :: "ProjectFileV1 \<Rightarrow> ExportSettings \<Rightarrow> string \<times> string" where
  "createImageBackgroundFilterGraph project settings =
     (let foreground = createForegroundFilter project settings;
          backgroundScale =
            ''scale='' @ intToString (width settings) @ '':'' @ intToString (height settings)
              @ '':force_original_aspect_ratio=increase:flags=lanczos''
            @ '','' @ ''crop='' @ intToString (width settings) @ '':'' @ intToString (height settings)
            @ '','' @ ''setsar=1''
      in (''[0:v]'' @ foreground @ ''[fg];[1:v]'' @ backgroundScale
            @ ''[bg];[bg][fg]overlay=(W-w)/2:(H-h)/2:shortest=1[vout]'',
          ''[vout]''))"

definition createRenderPlan ::
  "ProjectFileV1 \<Rightarrow> string \<Rightarrow> string \<Rightarrow> string \<Rightarrow> EncoderChoice \<Rightarrow> string option \<Rightarrow> RenderPlan" where
  "createRenderPlan project inputPath output ffmpeg enc backgroundImagePathOption =
     (let backgroundImagePath = map_option trim backgroundImagePathOption;
          imageBackgroundEnabled =
            (backgroundType (background (timeline project)) = Image
             \<and> backgroundImagePath \<noteq> None \<and> backgroundImagePath \<noteq> Some []);
          args0 = [''-y'', ''-i'', inputPath];
          args1 =
            (if imageBackgroundEnabled
             then
               let (graph, outputLabel) =
                     createImageBackgroundFilterGraph project (exportSettings project)
               in args0 @ [''-loop'', ''1'', ''-i'', the backgroundImagePath,
                           ''-filter_complex'', graph, ''-map'', outputLabel, ''-shortest'']
             else args0 @ [''-vf'', createFilterGraph project (exportSettings project)]);
          args2 = args1 @ [''-r'', intToString (fps (exportSettings project)), ''-c:v'',
                           encoderName enc, ''-pix_fmt'', ''yuv420p'', ''-movflags'',
                           ''+faststart'', output]
      in \<lparr>ffmpegPath = ffmpeg, args = args2, outputPath = output, encoder = enc\<rparr>)"

section \<open>Render executor\<close>

text \<open>
  The world the executor acts on.  A path names a regular file (with its content), a
  directory, or nothing.  \<^verbatim>\<open>existsSync\<close> is true of files and directories;
  \<^verbatim>\<open>unlinkSync\<close> removes a file and throws on a directory or a missing path (with the
  platform's message, of which the model fixes one).  A thrown or rejected \<^verbatim>\<open>Error\<close> is
  a value \<open>Error message\<close>.
\<close>

datatype fileNode = File string | Directory

type_synonym fileSystem = "string \<Rightarrow> fileNode option"

datatype jsError = Error string

fun message :: "jsError \<Rightarrow> string" where
  "message (Error m) = m"

definition existsSync :: "fileSystem \<Rightarrow> string \<Rightarrow> bool" where
  "existsSync fs path = (fs path \<noteq> None)"

definition unlinkSync :: "fileSystem \<Rightarrow> string \<Rightarrow> jsError + fileSystem" where
  "unlinkSync fs path =
     (case fs path of
        Some (File content) \<Rightarrow> Inr (fs(path := None))
      | Some Directory \<Rightarrow> Inl (Error (''EISDIR: illegal operation on a directory, unlink '' @ path))
      | None \<Rightarrow> Inl (Error (''ENOENT: no such file or directory, unlink '' @ path)))"

text \<open>
  The external transcoder is a black box: started with a plan on a file system, it ends
  either with an \<^verbatim>\<open>error\<close> event (it could not be spawned) or with a \<^verbatim>\<open>close\<close> event
  carrying its exit code (\<^verbatim>\<open>null\<close> when a signal ended it) after writing lines to its
  standard error, and it leaves a file system behind.  \<open>Exit code stderrLines\<close> holds the
  non-empty lines in the order they arrived.  The executor neither kills nor messages
  its child, so an \<^verbatim>\<open>error\<close> event means that the spawn failed.
\<close>

datatype processEnd = SpawnError string | Exit "int option" "string list"

type_synonym transcoder = "RenderPlan \<Rightarrow> fileSystem \<Rightarrow> processEnd \<times> fileSystem"

fun joinWith :: "string \<Rightarrow> string list \<Rightarrow> string" where
  "joinWith separator [] = []"
| "joinWith separator [x] = x"
| "joinWith separator (x # y # rest) = x @ separator @ joinWith separator (y # rest)"

text \<open>The buffer \<^verbatim>\<open>stderrTail\<close>: push the line, drop the oldest beyond 30.\<close>

definition pushTail :: "string list \<Rightarrow> string \<Rightarrow> string list" where
  "pushTail stderrTail line =
     (let pushed = stderrTail @ [line] in if length pushed > 30 then tl pushed else pushed)"

definition codeToString :: "int option \<Rightarrow> string" where
  "codeToString code = (case code of None \<Rightarrow> ''null'' | Some c \<Rightarrow> intToString c)"

text \<open>
  \<^verbatim>\<open>runRender\<close>: the promise resolves when the process closes with code 0 and rejects
  otherwise.  The progress callback does not bear on the result and is left out.
\<close>

definition runRender :: "transcoder \<Rightarrow> RenderPlan \<Rightarrow> fileSystem \<Rightarrow> (jsError + unit) \<times> fileSystem" where
  "runRender proc plan fs =
     (case proc plan fs of
        (SpawnError m, fs') \<Rightarrow> (Inl (Error m), fs')
      | (Exit code stderrLines, fs') \<Rightarrow>
          if code = Some 0 then (Inr (), fs')
          else
            let stderrTail = foldl pushTail [] stderrLines;
                details = (if length stderrTail > 0
                           then [CHR 0x0A] @ joinWith [CHR 0x0A] stderrTail else [])
            in (Inl (Error (''FFmpeg exited with code '' @ codeToString code @ ''.'' @ details)),
                fs'))"

text \<open>
  The state the orchestration threads through its attempts: the file system, the plans
  it has spawned the transcoder with (in order), and the notices it has sent to the
  window.  \<open>RenderJob\<close> holds what \<^verbatim>\<open>renderProjectToMp4\<close> has fixed before its loop.
\<close>

record World =
  files :: fileSystem
  spawned :: "RenderPlan list"
  notices :: "string list"

record RenderJob =
  jobProject :: ProjectFileV1
  screenTrackPath :: string
  jobFfmpegPath :: string
  resolvedOutput :: string
  jobBackgroundImagePath :: "string option"
  windowOpen :: bool

datatype ExportResult = Canceled | Exported string EncoderChoice

datatype attemptOutcome = Succeeded | Failed jsError | Escaped jsError

definition planFor :: "RenderJob \<Rightarrow> EncoderChoice \<Rightarrow> RenderPlan" where
  "planFor job enc =
     createRenderPlan (jobProject job) (screenTrackPath job) (resolvedOutput job)
       (jobFfmpegPath job) enc (jobBackgroundImagePath job)"

text \<open>\<^verbatim>\<open>if (existsSync(resolvedOutput)) { unlinkSync(resolvedOutput); }\<close>\<close>

definition clearOutput :: "fileSystem \<Rightarrow> string \<Rightarrow> jsError + fileSystem" where
  "clearOutput fs path = (if existsSync fs path then unlinkSync fs path else Inr fs)"

definition notify :: "RenderJob \<Rightarrow> string \<Rightarrow> World \<Rightarrow> World" where
  "notify job line w = (if windowOpen job then w\<lparr>notices := notices w @ [line]\<rparr> else w)"

text \<open>
  One round of the loop up to the end of its \<^verbatim>\<open>try\<close> block: \<open>Succeeded\<close> is the
  \<^verbatim>\<open>return\<close>, \<open>Failed\<close> an error the \<^verbatim>\<open>catch\<close> receives, \<open>Escaped\<close> an error thrown
  outside the \<^verbatim>\<open>try\<close> (by \<^verbatim>\<open>unlinkSync\<close>).
\<close>

definition attempt :: "transcoder \<Rightarrow> RenderJob \<Rightarrow> EncoderChoice \<Rightarrow> World \<Rightarrow> attemptOutcome \<times> World" where
  "attempt proc job enc w =
     (case clearOutput (files w) (resolvedOutput job) of
        Inl e \<Rightarrow> (Escaped e, w)
      | Inr fs1 \<Rightarrow>
          let plan = planFor job enc;
              (rendered, fs2) = runRender proc plan fs1;
              w2 = w\<lparr>files := fs2, spawned := spawned w @ [plan]\<rparr>
          in (case rendered of
                Inl e \<Rightarrow> (Failed e, w2)
              | Inr u \<Rightarrow>
                  (if \<not> existsSync fs2 (resolvedOutput job)
                   then (Failed (Error ''Render completed but output was not created.''), w2)
                   else (Succeeded, w2))))"

definition exhaustedMessage :: "EncoderChoice list \<Rightarrow> jsError option \<Rightarrow> string" where
  "exhaustedMessage encoderAttempts lastError =
     ''Failed to export MP4 after trying encoders: ''
       @ joinWith '', '' (map encoderName encoderAttempts) @ ''. ''
       @ (case lastError of Some e \<Rightarrow> message e | None \<Rightarrow> ''undefined'')"

definition failedNotice :: "EncoderChoice \<Rightarrow> string" where
  "failedNotice enc = ''Encoder '' @ encoderName enc @ '' failed, trying next available encoder...''"

text \<open>
  The loop \<^verbatim>\<open>for (const encoder of encoderAttempts)\<close> with the \<^verbatim>\<open>throw\<close> after it;
  \<open>encoderAttempts\<close> is the whole chain (for the message), the next argument what is
  left of it.
\<close>

fun attemptLoop ::
  "transcoder \<Rightarrow> RenderJob \<Rightarrow> EncoderChoice list \<Rightarrow> EncoderChoice list \<Rightarrow> jsError option \<Rightarrow> World
     \<Rightarrow> (jsError + ExportResult) \<times> World" where
  "attemptLoop proc job encoderAttempts [] lastError w =
     (Inl (Error (exhaustedMessage encoderAttempts lastError)), w)"
| "attemptLoop proc job encoderAttempts (enc # rest) lastError w =
     (case attempt proc job enc w of
        (Succeeded, w') \<Rightarrow> (Inr (Exported (resolvedOutput job) enc), w')
      | (Escaped e, w') \<Rightarrow> (Inl e, w')
      | (Failed e, w') \<Rightarrow>
          attemptLoop proc job encoderAttempts rest (Some e) (notify job (failedNotice enc) w'))"

text \<open>
  The outcomes of the attempts the loop makes on a chain, in order: it goes on after a
  failed attempt and stops after any other.
\<close>

fun attemptOutcomes :: "transcoder \<Rightarrow> RenderJob \<Rightarrow> EncoderChoice list \<Rightarrow> World \<Rightarrow> attemptOutcome list" where
  "attemptOutcomes proc job [] w = []"
| "attemptOutcomes proc job (enc # rest) w =
     (case attempt proc job enc w of
        (Failed e, w') \<Rightarrow> Failed e # attemptOutcomes proc job rest (notify job (failedNotice enc) w')
      | (outcome, w') \<Rightarrow> [outcome])"

text \<open>
  \<^verbatim>\<open>renderProjectToMp4\<close> from the probe of the encoders on.  What the outside world
  answers is given: the project as loaded, the encoders the probe found, the output
  path argument, the suggested path (exports directory, name and clock), the answer of
  the save dialog (\<open>None\<close> when cancelled) and the resolved background image path.
  Creating the directories is left out.
\<close>

record RenderRequest =
  loadedProject :: ProjectFileV1
  loadedScreenTrackPath :: string
  envFfmpegPath :: string
  probedEncoders :: "EncoderChoice list"
  outputPathArgument :: "string option"
  suggestedOutput :: string
  mainWindowOpen :: bool
  saveDialogAnswer :: "string option"
  resolvedBackgroundImagePath :: "string option"

definition toLowerCase :: "string \<Rightarrow> string" where
  "toLowerCase s =
     map (\<lambda>c. case map_of (zip ''ABCDEFGHIJKLMNOPQRSTUVWXYZ'' ''abcdefghijklmnopqrstuvwxyz'') c of
                 Some l \<Rightarrow> l | None \<Rightarrow> c) s"

definition renderProjectToMp4 ::
  "transcoder \<Rightarrow> RenderRequest \<Rightarrow> World \<Rightarrow> (jsError + ExportResult) \<times> World" where
  "renderProjectToMp4 proc request w =
     (let project = loadedProject request;
          encoders = probedEncoders request;
          preferredEncoder = pickEncoder (map encoderName encoders) (encoderHint (exportSettings project));
          encoderAttempts = buildEncoderAttempts encoders preferredEncoder;
          askUser = ((outputPathArgument request = None \<or> outputPathArgument request = Some [])
                     \<and> mainWindowOpen request)
      in if askUser \<and> (saveDialogAnswer request = None \<or> saveDialogAnswer request = Some [])
         then (Inr Canceled, w)
         else
           let resolved =
                 (if askUser
                  then (let filePath = the (saveDialogAnswer request)
                        in if suffix ''.mp4'' (toLowerCase filePath) then filePath
                           else filePath @ ''.mp4'')
                  else (case outputPathArgument request of Some p \<Rightarrow> p
                        | None \<Rightarrow> suggestedOutput request));
               isImage = (backgroundType (background (timeline project)) = Image);
               resolvedImage = (if isImage then resolvedBackgroundImagePath request else None);
               hasBackgroundImage =
                 (case resolvedImage of
                    Some p \<Rightarrow> p \<noteq> [] \<and> existsSync (files w) p
                  | None \<Rightarrow> False);
               job = \<lparr>jobProject = project,
                      screenTrackPath = loadedScreenTrackPath request,
                      jobFfmpegPath = envFfmpegPath request,
                      resolvedOutput = resolved,
                      jobBackgroundImagePath = (if hasBackgroundImage then resolvedImage else None),
                      windowOpen = mainWindowOpen request\<rparr>;
               w1 = (if isImage \<and> resolvedImage \<noteq> None \<and> resolvedImage \<noteq> Some []
                        \<and> \<not> hasBackgroundImage
                     then notify job (''Background image not found at '' @ the resolvedImage
                            @ ''. Falling back to color background for export.'') w
                     else w)
           in attemptLoop proc job encoderAttempts encoderAttempts None w1)"

section \<open>Specification-side definitions\<close>

text \<open>
  What the piecewise expressions are compared with.  \<open>coversExact t segment\<close> is the
  specification's reading, "the segment's \<open>[startMs, endMs]\<close> contains the time \<open>t\<close>"
  (\<open>t\<close> in seconds, the bounds in milliseconds).  \<open>coversPrinted\<close> is the interval the
  compiled expression tests: its bounds are the numbers the transcoder reads from what
  \<^verbatim>\<open>toSeconds\<close> prints.  \<open>coversQuotient\<close> is the interval between the binary64
  quotients \<^verbatim>\<open>startMs / 1000\<close> and \<^verbatim>\<open>endMs / 1000\<close>.  \<open>specPiecewise\<close> is the value
  the specification gives the expression: that of the first segment covering \<open>t\<close>, or
  the fallback.
\<close>

definition coversExact :: "real \<Rightarrow> ZoomSegment \<Rightarrow> bool" where
  "coversExact t segment = (startMs segment \<le> t * 1000 \<and> t * 1000 \<le> endMs segment)"

definition coversPrinted :: "real \<Rightarrow> ZoomSegment \<Rightarrow> bool" where
  "coversPrinted t segment =
     (literalValue (toSeconds (startMs segment)) \<le> t \<and> t \<le> literalValue (toSeconds (endMs segment)))"

definition coversQuotient :: "real \<Rightarrow> ZoomSegment \<Rightarrow> bool" where
  "coversQuotient t segment =
     (binary64 (startMs segment / 1000) \<le> t \<and> t \<le> binary64 (endMs segment / 1000))"

definition specPiecewise ::
  "ZoomSegment list \<Rightarrow> (ZoomSegment \<Rightarrow> string) \<Rightarrow> string \<Rightarrow> real \<Rightarrow> real" where
  "specPiecewise segments pickValue fallback t =
     (case find (coversExact t) segments of
        Some segment \<Rightarrow> literalValue (pickValue segment)
      | None \<Rightarrow> literalValue fallback)"

text \<open>
  A zoom segment as the compiled expressions hold it: level and target printed by
  \<^verbatim>\<open>toFixed(4)\<close> and read back by the transcoder.  \<open>fourDecimals v\<close> says that this
  leaves \<open>v\<close> as it is: \<open>v\<close> is the binary64 number nearest to its own rounding to four
  decimals, which is the case for the binary64 number nearest to a multiple
  \<open>k * 0.0001\<close> with \<open>\<bar>k\<bar> < 2^52\<close> (lemma \<open>fourDecimals_nearest\<close>), such as a number
  written with at most four decimals in the program text or in a project file.
\<close>

definition roundedZoom :: "ZoomSegment \<Rightarrow> ZoomSegment" where
  "roundedZoom segment =
     segment\<lparr>level := literalValue (toFixed 4 (level segment)),
             manualTarget :=
               (case manualTarget segment of
                  Some target \<Rightarrow>
                    Some \<lparr>xNorm = literalValue (toFixed 4 (xNorm target)),
                          yNorm = literalValue (toFixed 4 (yNorm target))\<rparr>
                | None \<Rightarrow> None)\<rparr>"

definition fourDecimals :: "real \<Rightarrow> bool" where
  "fourDecimals v = (v = binary64 (fixedValue 4 v))"

text \<open>
  What \<^verbatim>\<open>buildAutoZooms\<close> reads of an event: its time, its kind and its position (not
  its \<^verbatim>\<open>id\<close> or its payload).
\<close>

definition eventView :: "RecordingEvent \<Rightarrow> real \<times> EventKind \<times> real option \<times> real option" where
  "eventView event = (atMs event, kind event, eventXNorm event, eventYNorm event)"

text \<open>Strings of decimal digits, and the digits \<open>toFixed\<close> prints for a scaled magnitude.\<close>

definition isDigits :: "string \<Rightarrow> bool" where
  "isDigits ds = (set ds \<subseteq> set ''0123456789'')"

definition fixedDigits :: "nat \<Rightarrow> nat \<Rightarrow> string" where
  "fixedDigits f n =
     (let m = natToString n;
          padded = (if length m \<le> f then replicate (f + 1 - length m) (CHR ''0'') @ m else m);
          a = take (length padded - f) padded;
          b = drop (length padded - f) padded
      in if f = 0 then padded else a @ ''.'' @ b)"

text \<open>Inputs for worked examples: a manual zoom, and a project that holds given zooms.\<close>

definition zoomAt :: "real \<Rightarrow> real \<Rightarrow> real \<Rightarrow> real \<Rightarrow> real \<Rightarrow> ZoomSegment" where
  "zoomAt s e l x y =
     \<lparr>segmentId = ''z'', startMs = s, endMs = e, level = l, mode = Manual,
      manualTarget = Some \<lparr>xNorm = x, yNorm = y\<rparr>, instant = False, disabled = False,
      sourceSignal = None\<rparr>"

definition projectWith :: "ZoomSegment list \<Rightarrow> ProjectFileV1" where
  "projectWith zs =
     \<lparr>timeline = \<lparr>zooms = zs,
        background = \<lparr>backgroundType = Gradient, gradientFrom = ''#0f172a'', color = ''#111827'',
          padding = 64, inset = 0\<rparr>\<rparr>,
      exportSettings = \<lparr>width = 1920, height = 1080, fps = 60, encoderHint = HintAuto\<rparr>\<rparr>"

text \<open>
  The zoom of the worked example for the crop offsets: from 0 to 1000 ms, with the
  level \<^verbatim>\<open>1.8\<close> and the target \<^verbatim>\<open>(0.7, 0.5)\<close> of the program text, which are the
  binary64 numbers nearest to \<open>9/5\<close> and \<open>7/10\<close>.
\<close>

definition exampleZoom :: ZoomSegment where
  "exampleZoom = zoomAt 0 1000 (binary64 (9 / 5)) (binary64 (7 / 10)) (1 / 2)"

text \<open>
  Inputs for worked examples of the executor: a job writing to \<^verbatim>\<open>out.mp4\<close>, a world
  with a given node at that path, a transcoder that knows \<^verbatim>\<open>libx264\<close> only, one that
  knows no encoder, and one that exits with code 0 without writing anything.
\<close>

definition exampleJob :: RenderJob where
  "exampleJob =
     \<lparr>jobProject = projectWith [], screenTrackPath = ''screen.webm'', jobFfmpegPath = ''ffmpeg'',
      resolvedOutput = ''out.mp4'', jobBackgroundImagePath = None, windowOpen = True\<rparr>"

definition worldWith :: "fileNode option \<Rightarrow> World" where
  "worldWith node = \<lparr>files = (\<lambda>path. None)(''out.mp4'' := node), spawned = [], notices = []\<rparr>"

definition softwareOnly :: transcoder where
  "softwareOnly plan fs =
     (if encoder plan = Libx264 then (Exit (Some 0) [], fs(outputPath plan \<mapsto> File ''video''))
      else (Exit (Some 1) [''Unknown encoder''], fs))"

definition noEncoder :: transcoder where
  "noEncoder plan fs = (Exit (Some 1) [''Unknown encoder''], fs)"

definition idle :: transcoder where
  "idle plan fs = (Exit (Some 0) [], fs)"

section \<open>Properties of the auto-zoom segmentation engine\<close>

lemma raw_startMs:
  "map startMs (map (\<lambda>(i, event). toCandidate opts d (uuid i) event) (enumerate n evs))
     = map (\<lambda>event. max 0 (atMs event - 120)) evs"
  by (induction evs arbitrary: n) (simp_all add: toCandidate_def Let_def)

lemma raw_bounds:
  "s \<in> set (map (\<lambda>(i, event). toCandidate opts d (uuid i) event) (enumerate n evs))
     \<Longrightarrow> 0 \<le> startMs s \<and> endMs s \<le> d"
  by (induction evs arbitrary: n) (auto simp: toCandidate_def Let_def)

lemma raw_sorted:
  assumes "sorted (map atMs evs)"
  shows "sorted (map startMs (map (\<lambda>(i, event). toCandidate opts d (uuid i) event) (enumerate n evs)))"
proof -
  have "sorted (map (\<lambda>event. max 0 (atMs event - 120)) evs)"
    using assms by (induction evs) auto
  then show ?thesis by (simp only: raw_startMs)
qed

lemma mergeStep_cases [case_names push merge]:
  obtains
    (push) "mergeStep opts merged s = merged @ [s]"
      and "merged \<noteq> [] \<Longrightarrow> separated (mergeGapMs opts) (last merged) s"
  | (merge) x where "merged \<noteq> []"
      and "mergeStep opts merged s = butlast merged @ [x]"
      and "startMs x = startMs (last merged)"
      and "sourceSignal x = sourceSignal (last merged)"
      and "endMs x = max (endMs (last merged)) (endMs s)"
proof (cases "merged \<noteq> [] \<and> sourceSignal (last merged) = sourceSignal s
    \<and> startMs s - endMs (last merged) \<le> mergeGapMs opts")
  case True
  show ?thesis
  proof (cases "manualTarget s")
    case None
    show ?thesis
      by (rule merge [of "last merged\<lparr>endMs := max (endMs (last merged)) (endMs s)\<rparr>"])
        (use True None in \<open>simp_all add: mergeStep_def Let_def\<close>)
  next
    case (Some target)
    show ?thesis
      by (rule merge [of "last merged\<lparr>endMs := max (endMs (last merged)) (endMs s),
            manualTarget := Some target\<rparr>"])
        (use True Some in \<open>simp_all add: mergeStep_def Let_def\<close>)
  qed
next
  case False
  show ?thesis
    by (rule push) (use False in \<open>auto simp: mergeStep_def Let_def separated_def\<close>)
qed

lemma mergeStep_startMs:
  "map startMs (mergeStep opts merged s) = map startMs merged
   \<or> map startMs (mergeStep opts merged s) = map startMs merged @ [startMs s]"
proof (cases rule: mergeStep_cases [of opts merged s])
  case push
  then show ?thesis by simp
next
  case (merge x)
  have "map startMs (butlast merged @ [x]) = map startMs (butlast merged @ [last merged])"
    using merge(3) by simp
  also have "\<dots> = map startMs merged"
    using merge(1) by simp
  finally show ?thesis using merge(2) by simp
qed

lemma sorted_drop_middle: "sorted (xs @ y # ys) \<Longrightarrow> sorted (xs @ (ys :: real list))"
  by (auto simp: sorted_append)

lemma foldl_mergeStep_sorted:
  "sorted (map startMs (merged @ rest)) \<Longrightarrow> sorted (map startMs (foldl (mergeStep opts) merged rest))"
proof (induction rest arbitrary: merged)
  case Nil
  then show ?case by simp
next
  case (Cons s rest)
  have "sorted (map startMs (mergeStep opts merged s @ rest))"
    using mergeStep_startMs [of opts merged s] Cons.prems sorted_drop_middle [of "map startMs merged" "startMs s" "map startMs rest"]
    by auto
  from Cons.IH [OF this] show ?case by simp
qed

lemma mergeStep_bounds:
  assumes "\<forall>m \<in> set merged. 0 \<le> startMs m \<and> endMs m \<le> d" and "0 \<le> startMs s \<and> endMs s \<le> d"
  shows "\<forall>m \<in> set (mergeStep opts merged s). 0 \<le> startMs m \<and> endMs m \<le> d"
proof (cases rule: mergeStep_cases [of opts merged s])
  case push
  then show ?thesis using assms by simp
next
  case (merge x)
  have l: "0 \<le> startMs (last merged) \<and> endMs (last merged) \<le> d"
    using assms(1) merge(1) by simp
  have b: "\<forall>m \<in> set (butlast merged). 0 \<le> startMs m \<and> endMs m \<le> d"
    using assms(1) by (meson in_set_butlastD)
  show ?thesis using merge l b assms(2) by auto
qed

lemma foldl_mergeStep_bounds:
  "\<forall>m \<in> set merged. 0 \<le> startMs m \<and> endMs m \<le> d \<Longrightarrow>
   \<forall>m \<in> set rest. 0 \<le> startMs m \<and> endMs m \<le> d \<Longrightarrow>
   \<forall>m \<in> set (foldl (mergeStep opts) merged rest). 0 \<le> startMs m \<and> endMs m \<le> d"
proof (induction rest arbitrary: merged)
  case Nil
  then show ?case by simp
next
  case (Cons s rest)
  have "\<forall>m \<in> set (mergeStep opts merged s). 0 \<le> startMs m \<and> endMs m \<le> d"
    using mergeStep_bounds [where merged = merged and d = d and s = s and opts = opts] Cons.prems by simp
  from Cons.IH [OF this] Cons.prems(2) show ?case by simp
qed

lemma successively_snoc:
  "successively P (xs @ [y]) \<longleftrightarrow> successively P xs \<and> (xs = [] \<or> P (last xs) y)"
  by (simp add: successively_append_iff)

lemma mergeStep_separated:
  assumes "successively (separated (mergeGapMs opts)) merged"
  shows "successively (separated (mergeGapMs opts)) (mergeStep opts merged s)"
proof (cases rule: mergeStep_cases [of opts merged s])
  case push
  then show ?thesis
    using assms by (auto simp: successively_snoc)
next
  case (merge x)
  let ?P = "separated (mergeGapMs opts)"
  have "successively ?P (butlast merged @ [last merged])"
    using assms merge(1) by simp
  then have "successively ?P (butlast merged)
      \<and> (butlast merged = [] \<or> ?P (last (butlast merged)) (last merged))"
    by (simp only: successively_snoc)
  then have "successively ?P (butlast merged)
      \<and> (butlast merged = [] \<or> ?P (last (butlast merged)) x)"
    using merge(3,4) by (auto simp: separated_def)
  then show ?thesis by (simp only: merge(2) successively_snoc)
qed

lemma foldl_mergeStep_separated:
  "successively (separated (mergeGapMs opts)) merged \<Longrightarrow>
   successively (separated (mergeGapMs opts)) (foldl (mergeStep opts) merged rest)"
  by (induction rest arbitrary: merged) (simp_all add: mergeStep_separated)

lemma successively_nth:
  "successively P xs \<Longrightarrow> Suc i < length xs \<Longrightarrow> P (xs ! i) (xs ! Suc i)"
proof (induction P xs arbitrary: i rule: successively.induct)
  case (3 P x y xs)
  then show ?case by (cases i) auto
qed simp_all

text \<open>
  C7.  For every event list, every duration and every option set, the segments
  \<^verbatim>\<open>buildAutoZooms\<close> returns are in ascending order of \<^verbatim>\<open>startMs\<close>; two consecutive
  returned segments with the same \<^verbatim>\<open>sourceSignal\<close> are more than \<^verbatim>\<open>mergeGapMs\<close> apart
  (the later start minus the earlier end); and every returned segment has
  \<open>0 \<le> startMs\<close> and \<open>endMs \<le> durationMs\<close>.  (No bound on \<^verbatim>\<open>durationMs\<close> is needed.)
\<close>

theorem buildAutoZooms_ordered_separated_bounded:
  fixes uuid events durationMs options
  defines "out \<equiv> buildAutoZooms uuid events durationMs options"
    and "gap \<equiv> mergeGapMs (mergeOptions defaultAutoZoomOptions options)"
  shows "sorted (map startMs out)
    \<and> (\<forall>i. Suc i < length out \<longrightarrow> sourceSignal (out ! i) = sourceSignal (out ! Suc i)
           \<longrightarrow> gap < startMs (out ! Suc i) - endMs (out ! i))
    \<and> (\<forall>s \<in> set out. 0 \<le> startMs s \<and> endMs s \<le> durationMs)"
proof -
  define opts where "opts = mergeOptions defaultAutoZoomOptions options"
  define evs where "evs = filter (\<lambda>event. shouldUseEvent event opts) (sort_key atMs events)"
  define raw where "raw = map (\<lambda>(i, event). toCandidate opts durationMs (uuid i) event) (enumerate 0 evs)"
  have out: "out = (if length raw < 2 then raw else foldl (mergeStep opts) [] raw)"
    by (simp add: out_def buildAutoZooms_def Let_def opts_def evs_def raw_def)
  have "sorted (map atMs evs)"
    unfolding evs_def by (simp add: sorted_filter)
  then have rs: "sorted (map startMs raw)"
    unfolding raw_def by (rule raw_sorted)
  have rb: "\<forall>s \<in> set raw. 0 \<le> startMs s \<and> endMs s \<le> durationMs"
    unfolding raw_def using raw_bounds by blast
  have gap: "gap = mergeGapMs opts"
    by (simp add: gap_def opts_def)
  have s123: "sorted (map startMs out) \<and> successively (separated gap) out
      \<and> (\<forall>s \<in> set out. 0 \<le> startMs s \<and> endMs s \<le> durationMs)"
  proof (cases "length raw < 2")
    case True
    then have "raw = [] \<or> (\<exists>x. raw = [x])"
      by (cases raw) (auto simp: length_Suc_conv)
    then have "successively (separated gap) raw"
      by auto
    moreover have "out = raw"
      using True by (simp only: out if_True)
    ultimately show ?thesis
      using rs rb by simp
  next
    case False
    then have o: "out = foldl (mergeStep opts) [] raw"
      by (simp only: out if_False)
    have "sorted (map startMs ([] @ raw))"
      using rs by simp
    then have a: "sorted (map startMs out)"
      unfolding o by (rule foldl_mergeStep_sorted)
    have "successively (separated (mergeGapMs opts)) []"
      by simp
    then have b: "successively (separated gap) out"
      unfolding o gap by (rule foldl_mergeStep_separated)
    have "\<forall>m \<in> set []. 0 \<le> startMs m \<and> endMs m \<le> durationMs"
      by simp
    then have c: "\<forall>s \<in> set out. 0 \<le> startMs s \<and> endMs s \<le> durationMs"
      unfolding o using rb by (rule foldl_mergeStep_bounds)
    from a b c show ?thesis by blast
  qed
  then have s1: "sorted (map startMs out)" and s2: "successively (separated gap) out"
    and s3: "\<forall>s \<in> set out. 0 \<le> startMs s \<and> endMs s \<le> durationMs"
    by blast+
  have s2': "\<forall>i. Suc i < length out \<longrightarrow> sourceSignal (out ! i) = sourceSignal (out ! Suc i)
           \<longrightarrow> gap < startMs (out ! Suc i) - endMs (out ! i)"
    using successively_nth [OF s2] by (simp add: separated_def)
  from s1 s2' s3 show ?thesis by blast
qed

theorem buildAutoZooms_ordered_separated_bounded_witness:
  "buildAutoZooms (\<lambda>i. ''id'') [eventAt Click 5000 (1/4) (3/4), eventAt Click 1000 (1/2) (1/2)]
       10000 noOptions
     = [\<lparr>segmentId = ''id'', startMs = 880, endMs = 2500, level = 9 / 5, mode = Auto,
          manualTarget = Some \<lparr>xNorm = 1/2, yNorm = 1/2\<rparr>, instant = False, disabled = False,
          sourceSignal = Some SignalClick\<rparr>,
        \<lparr>segmentId = ''id'', startMs = 4880, endMs = 6500, level = 9 / 5, mode = Auto,
          manualTarget = Some \<lparr>xNorm = 1/4, yNorm = 3/4\<rparr>, instant = False, disabled = False,
          sourceSignal = Some SignalClick\<rparr>]
   \<and> sorted (map startMs (buildAutoZooms (\<lambda>i. ''id'')
         [eventAt Click 5000 (1/4) (3/4), eventAt Click 1000 (1/2) (1/2)] 10000 noOptions))
   \<and> mergeGapMs (mergeOptions defaultAutoZoomOptions noOptions)
        < startMs (buildAutoZooms (\<lambda>i. ''id'')
            [eventAt Click 5000 (1/4) (3/4), eventAt Click 1000 (1/2) (1/2)] 10000 noOptions ! Suc 0)
          - endMs (buildAutoZooms (\<lambda>i. ''id'')
            [eventAt Click 5000 (1/4) (3/4), eventAt Click 1000 (1/2) (1/2)] 10000 noOptions ! 0)"
proof -
  have ev: "buildAutoZooms (\<lambda>i. ''id'') [eventAt Click 5000 (1/4) (3/4), eventAt Click 1000 (1/2) (1/2)]
       10000 noOptions
     = [\<lparr>segmentId = ''id'', startMs = 880, endMs = 2500, level = 9 / 5, mode = Auto,
          manualTarget = Some \<lparr>xNorm = 1/2, yNorm = 1/2\<rparr>, instant = False, disabled = False,
          sourceSignal = Some SignalClick\<rparr>,
        \<lparr>segmentId = ''id'', startMs = 4880, endMs = 6500, level = 9 / 5, mode = Auto,
          manualTarget = Some \<lparr>xNorm = 1/4, yNorm = 3/4\<rparr>, instant = False, disabled = False,
          sourceSignal = Some SignalClick\<rparr>]"
    by (simp add: buildAutoZooms_def eventAt_def noOptions_def mergeOptions_def
        defaultAutoZoomOptions_def toCandidate_def mergeStep_def Let_def)
  show ?thesis
    using buildAutoZooms_ordered_separated_bounded [of "\<lambda>i. ''id''"
        "[eventAt Click 5000 (1/4) (3/4), eventAt Click 1000 (1/2) (1/2)]" 10000 noOptions]
    by (simp add: ev)
qed

lemma map_insort_key:
  "map g (insort_key (\<lambda>a. h (g a)) x ys) = insort_key h (g x) (map g ys)"
  by (induction ys) simp_all

lemma map_sort_key:
  "map g (sort_key (\<lambda>a. h (g a)) xs) = sort_key h (map g xs)"
  by (induction xs) (simp_all add: map_insort_key)

lemma sort_key_ties_equal:
  assumes "mset xs = mset ys"
    and "\<And>a b. a \<in> set xs \<Longrightarrow> b \<in> set xs \<Longrightarrow> h a = h b \<Longrightarrow> a = b"
  shows "sort_key h xs = sort_key h ys"
proof (rule properties_for_sort_key)
  show "mset (sort_key h ys) = mset xs"
    using assms(1) by simp
  show "sorted (map h (sort_key h ys))"
    by simp
  fix k
  assume "k \<in> set (sort_key h ys)"
  then have ky: "k \<in> set ys" by simp
  have sets: "set ys = set xs" using assms(1) by (metis mset_eq_setD)
  have kx: "k \<in> set xs" using ky sets by simp
  have only: "\<And>zs. set zs = set xs \<Longrightarrow> filter (\<lambda>x. h k = h x) zs = filter ((=) k) zs"
  proof -
    fix zs :: "'a list"
    assume "set zs = set xs"
    then have "\<And>x. x \<in> set zs \<Longrightarrow> (h k = h x) = (k = x)"
      using assms(2) [OF kx] by blast
    then show "filter (\<lambda>x. h k = h x) zs = filter ((=) k) zs"
      by (rule filter_cong [OF refl])
  qed
  have "filter (\<lambda>x. h x = h k) (sort_key h ys) = filter (\<lambda>x. h x = h k) ys"
    by (rule sort_key_stable)
  then have "filter (\<lambda>x. h k = h x) (sort_key h ys) = filter (\<lambda>x. h k = h x) ys"
    by (simp add: eq_commute [of "h k"])
  also have "\<dots> = filter ((=) k) ys" using only [OF sets] .
  also have "\<dots> = replicate (count (mset ys) k) k"
    by (simp add: replicate_count_mset_eq_filter_eq)
  also have "\<dots> = replicate (count (mset xs) k) k"
    using assms(1) by simp
  also have "\<dots> = filter ((=) k) xs"
    by (simp add: replicate_count_mset_eq_filter_eq)
  also have "\<dots> = filter (\<lambda>x. h k = h x) xs" using only [OF refl] by simp
  finally show "filter (\<lambda>x. h k = h x) (sort_key h ys) = filter (\<lambda>x. h k = h x) xs" .
qed

lemma map_enumerate_cong:
  assumes "map g xs = map g ys" and "\<And>i a b. g a = g b \<Longrightarrow> F i a = F i b"
  shows "map (\<lambda>(i, e). F i e) (enumerate n xs) = map (\<lambda>(i, e). F i e) (enumerate n ys)"
  using assms(1)
proof (induction xs arbitrary: ys n)
  case Nil
  then show ?case by simp
next
  case (Cons x xs)
  then obtain y ys' where ys: "ys = y # ys'" "g x = g y" "map g xs = map g ys'"
    by (cases ys) auto
  show ?case
    using Cons.IH [OF ys(3), of "Suc n"] assms(2) [OF ys(2)] by (simp add: ys(1))
qed

lemma distinct_kept_ties:
  assumes "distinct (map f (filter P xs))"
  shows "\<forall>a \<in> set xs. \<forall>b \<in> set xs. P a \<and> P b \<and> f a = f b \<longrightarrow> a = b"
proof -
  have "inj_on f (set (filter P xs))"
    using assms by (simp only: distinct_map)
  then show ?thesis
    by (auto dest: inj_onD)
qed

text \<open>
  C8 (as the code has it).  The sort is stable and compares \<^verbatim>\<open>atMs\<close> only, so events
  with equal \<^verbatim>\<open>atMs\<close> stay in their input order, and a permutation that swaps two of
  them can change the result when both are kept and differ in kind or position.  When
  any two kept events (those of a kind the options include; cursor events never are)
  with equal \<^verbatim>\<open>atMs\<close> have the same kind and the same position, in particular when no
  two kept events share an \<^verbatim>\<open>atMs\<close> (\<open>distinct_kept_ties\<close>), \<^verbatim>\<open>buildAutoZooms\<close>
  returns the same segments on every permutation of the event list (given the same
  identifiers from \<^verbatim>\<open>crypto.randomUUID()\<close>).
\<close>

theorem buildAutoZooms_permutation:
  assumes "mset events' = mset events"
    and "\<forall>a \<in> set events. \<forall>b \<in> set events.
           shouldUseEvent a (mergeOptions defaultAutoZoomOptions options)
           \<and> shouldUseEvent b (mergeOptions defaultAutoZoomOptions options)
           \<and> atMs a = atMs b
           \<longrightarrow> kind a = kind b \<and> eventXNorm a = eventXNorm b \<and> eventYNorm a = eventYNorm b"
  shows "buildAutoZooms uuid events' durationMs options = buildAutoZooms uuid events durationMs options"
proof -
  define mergedOptions where "mergedOptions = mergeOptions defaultAutoZoomOptions options"
  define kept where "kept = (\<lambda>event. shouldUseEvent event mergedOptions)"
  have atMs: "atMs = (\<lambda>a. fst (eventView a))" by (simp add: fun_eq_iff eventView_def)
  have m: "mset (map eventView (filter kept events)) = mset (map eventView (filter kept events'))"
    using assms(1) by simp
  have ties: "a = b"
    if ha: "a \<in> set (map eventView (filter kept events))"
      and hb: "b \<in> set (map eventView (filter kept events))"
      and hf: "fst a = fst b" for a b
  proof -
    obtain ea where ea: "ea \<in> set events" "kept ea" "a = eventView ea"
      using ha by auto
    obtain eb where eb: "eb \<in> set events" "kept eb" "b = eventView eb"
      using hb by auto
    have "atMs ea = atMs eb"
      using hf ea(3) eb(3) by (simp add: eventView_def)
    then have "kind ea = kind eb \<and> eventXNorm ea = eventXNorm eb \<and> eventYNorm ea = eventYNorm eb"
      using assms(2) ea(1,2) eb(1,2) unfolding kept_def mergedOptions_def by blast
    then show ?thesis
      using \<open>atMs ea = atMs eb\<close> ea(3) eb(3) by (simp add: eventView_def)
  qed
  have "map eventView (sort_key atMs (filter kept events)) = map eventView (sort_key atMs (filter kept events'))"
    unfolding atMs map_sort_key by (rule sort_key_ties_equal [OF m ties])
  then have "map eventView (filter kept (sort_key atMs events')) = map eventView (filter kept (sort_key atMs events))"
    by (simp add: filter_sort)
  then have "map (\<lambda>(i, event). toCandidate mergedOptions durationMs (uuid i) event)
          (enumerate 0 (filter kept (sort_key atMs events')))
      = map (\<lambda>(i, event). toCandidate mergedOptions durationMs (uuid i) event)
          (enumerate 0 (filter kept (sort_key atMs events)))"
    by (rule map_enumerate_cong) (simp add: eventView_def toCandidate_def)
  then show ?thesis
    unfolding buildAutoZooms_def Let_def mergedOptions_def [symmetric] kept_def [symmetric]
    by (simp only:)
qed

text \<open>
  Five events in two orders: two clicks at 1000 ms that differ in their \<^verbatim>\<open>id\<close> only,
  two cursor events at 1000 ms at different positions, and a key press at 3000 ms.
\<close>

theorem buildAutoZooms_permutation_witness:
  "buildAutoZooms (\<lambda>i. ''id'')
       [eventAt Typing 3000 (1/4) (3/4), eventAt Cursor 1000 (1/10) (1/10),
        \<lparr>eventId = ''b'', kind = Click, atMs = 1000, eventXNorm = Some (1/2), eventYNorm = Some (1/2)\<rparr>,
        eventAt Cursor 1000 (9/10) (9/10),
        \<lparr>eventId = ''a'', kind = Click, atMs = 1000, eventXNorm = Some (1/2), eventYNorm = Some (1/2)\<rparr>]
       10000 noOptions
   = buildAutoZooms (\<lambda>i. ''id'')
       [\<lparr>eventId = ''a'', kind = Click, atMs = 1000, eventXNorm = Some (1/2), eventYNorm = Some (1/2)\<rparr>,
        eventAt Cursor 1000 (9/10) (9/10),
        \<lparr>eventId = ''b'', kind = Click, atMs = 1000, eventXNorm = Some (1/2), eventYNorm = Some (1/2)\<rparr>,
        eventAt Cursor 1000 (1/10) (1/10), eventAt Typing 3000 (1/4) (3/4)]
       10000 noOptions"
  using buildAutoZooms_permutation [of
      "[eventAt Typing 3000 (1/4) (3/4), eventAt Cursor 1000 (1/10) (1/10),
        \<lparr>eventId = ''b'', kind = Click, atMs = 1000, eventXNorm = Some (1/2), eventYNorm = Some (1/2)\<rparr>,
        eventAt Cursor 1000 (9/10) (9/10),
        \<lparr>eventId = ''a'', kind = Click, atMs = 1000, eventXNorm = Some (1/2), eventYNorm = Some (1/2)\<rparr>]"
      "[\<lparr>eventId = ''a'', kind = Click, atMs = 1000, eventXNorm = Some (1/2), eventYNorm = Some (1/2)\<rparr>,
        eventAt Cursor 1000 (9/10) (9/10),
        \<lparr>eventId = ''b'', kind = Click, atMs = 1000, eventXNorm = Some (1/2), eventYNorm = Some (1/2)\<rparr>,
        eventAt Cursor 1000 (1/10) (1/10), eventAt Typing 3000 (1/4) (3/4)]"
      noOptions "\<lambda>i. ''id''" 10000]
  by (simp add: eventAt_def)

text \<open>
  Two clicks at 1000 ms at different positions merge into one segment that keeps the
  target of the click that comes last in the input.
\<close>

theorem buildAutoZooms_permutation_counterexample:
  "mset [eventAt Click 1000 (9/10) (1/2), eventAt Click 1000 (1/10) (1/2)]
     = mset [eventAt Click 1000 (1/10) (1/2), eventAt Click 1000 (9/10) (1/2)]
   \<and> buildAutoZooms (\<lambda>i. ''id'')
        [eventAt Click 1000 (9/10) (1/2), eventAt Click 1000 (1/10) (1/2)] 10000 noOptions
     \<noteq> buildAutoZooms (\<lambda>i. ''id'')
        [eventAt Click 1000 (1/10) (1/2), eventAt Click 1000 (9/10) (1/2)] 10000 noOptions"
  by (simp add: buildAutoZooms_def eventAt_def noOptions_def mergeOptions_def
      defaultAutoZoomOptions_def toCandidate_def mergeStep_def Let_def)

lemma buildAutoZooms_two_events:
  assumes "shouldUseEvent e1 (mergeOptions defaultAutoZoomOptions options)"
   "shouldUseEvent e2 (mergeOptions defaultAutoZoomOptions options)" "atMs e1 \<le> atMs e2"
  shows "buildAutoZooms uuid [e1, e2] durationMs options =
      mergeStep (mergeOptions defaultAutoZoomOptions options)
         [toCandidate (mergeOptions defaultAutoZoomOptions options) durationMs (uuid 0) e1]
         (toCandidate (mergeOptions defaultAutoZoomOptions options) durationMs (uuid 1) e2)"
  using assms by (simp add: buildAutoZooms_def Let_def mergeStep_def del: shouldUseEvent.simps)

text \<open>
  C4 (as the code has it).  With the default options, two events of the same kind
  (click, typing or focus) at \<open>1000\<close> and at a later time \<open>t\<close>, in a recording of at
  least \<open>1000 + segmentMs\<close> milliseconds: when \<open>t \<le> 1000 + segmentMs + mergeGapMs + 120\<close>
  the result is one merged segment, which starts at 880, ends where the second
  candidate ends, keeps the identifier, level and signal of the first and takes the
  target of the second event; otherwise the result is the two candidate segments.
  The gap is measured from the first segment's end to the second segment's start,
  which lies 120 ms before its event.  So the events merge at
  \<open>1000 + segmentMs + mergeGapMs - 1\<close>, still merge 1 ms later, and separate from
  \<open>1000 + segmentMs + mergeGapMs + 121\<close> on.
\<close>

theorem buildAutoZooms_merge_boundary:
  assumes "kind e1 = kind e2" and "kind e1 \<noteq> Cursor"
    and "atMs e1 = 1000" and "1000 \<le> atMs e2" and "1000 + 1500 \<le> durationMs"
  shows "buildAutoZooms uuid [e1, e2] durationMs noOptions =
     (if atMs e2 \<le> 1000 + 1500 + 280 + 120
      then [\<lparr>segmentId = uuid 0, startMs = 880, endMs = min durationMs (atMs e2 + 1500),
              level = 18 / 10, mode = Auto,
              manualTarget = Some \<lparr>xNorm = (case eventXNorm e2 of Some v \<Rightarrow> v | None \<Rightarrow> 1 / 2),
                                    yNorm = (case eventYNorm e2 of Some v \<Rightarrow> v | None \<Rightarrow> 1 / 2)\<rparr>,
              instant = False, disabled = False, sourceSignal = Some (toSignal (kind e1))\<rparr>]
      else [\<lparr>segmentId = uuid 0, startMs = 880, endMs = 2500,
              level = 18 / 10, mode = Auto,
              manualTarget = Some \<lparr>xNorm = (case eventXNorm e1 of Some v \<Rightarrow> v | None \<Rightarrow> 1 / 2),
                                    yNorm = (case eventYNorm e1 of Some v \<Rightarrow> v | None \<Rightarrow> 1 / 2)\<rparr>,
              instant = False, disabled = False, sourceSignal = Some (toSignal (kind e1))\<rparr>,
            \<lparr>segmentId = uuid 1, startMs = atMs e2 - 120, endMs = min durationMs (atMs e2 + 1500),
              level = 18 / 10, mode = Auto,
              manualTarget = Some \<lparr>xNorm = (case eventXNorm e2 of Some v \<Rightarrow> v | None \<Rightarrow> 1 / 2),
                                    yNorm = (case eventYNorm e2 of Some v \<Rightarrow> v | None \<Rightarrow> 1 / 2)\<rparr>,
              instant = False, disabled = False, sourceSignal = Some (toSignal (kind e1))\<rparr>])"
proof -
  have opts: "mergeOptions defaultAutoZoomOptions noOptions = defaultAutoZoomOptions"
    by (simp add: mergeOptions_def noOptions_def defaultAutoZoomOptions_def)
  have u1: "shouldUseEvent e1 defaultAutoZoomOptions"
    using assms(2) by (cases "kind e1") (simp_all add: defaultAutoZoomOptions_def)
  have u2: "shouldUseEvent e2 defaultAutoZoomOptions"
    using assms(1,2) by (cases "kind e2") (simp_all add: defaultAutoZoomOptions_def)
  have "buildAutoZooms uuid [e1, e2] durationMs noOptions =
      mergeStep defaultAutoZoomOptions
         [toCandidate defaultAutoZoomOptions durationMs (uuid 0) e1]
         (toCandidate defaultAutoZoomOptions durationMs (uuid 1) e2)"
    using buildAutoZooms_two_events [of e1 noOptions e2 uuid durationMs] u1 u2 assms(3,4) by (simp add: opts)
  then show ?thesis
    using assms(1,3,4,5)
    by (simp add: mergeStep_def toCandidate_def Let_def defaultAutoZoomOptions_def min_def max_def)
qed

text \<open>
  The second click at 2779 ms and at 2900 ms (merged), and at 2901 ms (separate).
\<close>

theorem buildAutoZooms_merge_boundary_witness:
  "buildAutoZooms (\<lambda>i. if i = 0 then ''first'' else ''second'')
      [eventAt Click 1000 (1/4) (1/4), eventAt Click (1000 + 1500 + 280 - 1) (3/4) (3/4)]
      10000 noOptions
     = [\<lparr>segmentId = ''first'', startMs = 880, endMs = 4279, level = 18 / 10, mode = Auto,
          manualTarget = Some \<lparr>xNorm = 3/4, yNorm = 3/4\<rparr>, instant = False, disabled = False,
          sourceSignal = Some SignalClick\<rparr>]
   \<and> buildAutoZooms (\<lambda>i. if i = 0 then ''first'' else ''second'')
      [eventAt Click 1000 (1/4) (1/4), eventAt Click (1000 + 1500 + 280 + 120) (3/4) (3/4)]
      10000 noOptions
     = [\<lparr>segmentId = ''first'', startMs = 880, endMs = 4400, level = 18 / 10, mode = Auto,
          manualTarget = Some \<lparr>xNorm = 3/4, yNorm = 3/4\<rparr>, instant = False, disabled = False,
          sourceSignal = Some SignalClick\<rparr>]
   \<and> buildAutoZooms (\<lambda>i. if i = 0 then ''first'' else ''second'')
      [eventAt Click 1000 (1/4) (1/4), eventAt Click (1000 + 1500 + 280 + 121) (3/4) (3/4)]
      10000 noOptions
     = [\<lparr>segmentId = ''first'', startMs = 880, endMs = 2500, level = 18 / 10, mode = Auto,
          manualTarget = Some \<lparr>xNorm = 1/4, yNorm = 1/4\<rparr>, instant = False, disabled = False,
          sourceSignal = Some SignalClick\<rparr>,
        \<lparr>segmentId = ''second'', startMs = 2781, endMs = 4401, level = 18 / 10, mode = Auto,
          manualTarget = Some \<lparr>xNorm = 3/4, yNorm = 3/4\<rparr>, instant = False, disabled = False,
          sourceSignal = Some SignalClick\<rparr>]"
  using buildAutoZooms_merge_boundary [of "eventAt Click 1000 (1/4) (1/4)"
      "eventAt Click (1000 + 1500 + 280 - 1) (3/4) (3/4)" 10000
      "\<lambda>i. if i = 0 then ''first'' else ''second''"]
    buildAutoZooms_merge_boundary [of "eventAt Click 1000 (1/4) (1/4)"
      "eventAt Click (1000 + 1500 + 280 + 120) (3/4) (3/4)" 10000
      "\<lambda>i. if i = 0 then ''first'' else ''second''"]
    buildAutoZooms_merge_boundary [of "eventAt Click 1000 (1/4) (1/4)"
      "eventAt Click (1000 + 1500 + 280 + 121) (3/4) (3/4)" 10000
      "\<lambda>i. if i = 0 then ''first'' else ''second''"]
  by (simp add: eventAt_def)

text \<open>
  The second click at 2780 ms: its segment starts at 2660 ms, 160 ms after the end of
  the first, and the two merge where the specification has two separate segments.
\<close>

theorem buildAutoZooms_merge_boundary_counterexample:
  "buildAutoZooms (\<lambda>i. if i = 0 then ''first'' else ''second'')
      [eventAt Click 1000 (1/4) (1/4), eventAt Click (1000 + 1500 + 280) (3/4) (3/4)]
      10000 noOptions
     = [\<lparr>segmentId = ''first'', startMs = 880, endMs = 4280, level = 18 / 10, mode = Auto,
          manualTarget = Some \<lparr>xNorm = 3/4, yNorm = 3/4\<rparr>, instant = False, disabled = False,
          sourceSignal = Some SignalClick\<rparr>]"
  by (simp add: buildAutoZooms_def eventAt_def noOptions_def mergeOptions_def
      defaultAutoZoomOptions_def toCandidate_def mergeStep_def Let_def)

section \<open>Properties of the encoder negotiation\<close>

lemma set_uniqFrom: "set (uniqFrom seen xs) = set xs - set seen"
  by (induction xs arbitrary: seen) auto

lemma distinct_uniqFrom: "distinct (uniqFrom seen xs)"
  by (induction xs arbitrary: seen) (auto simp: set_uniqFrom)

lemma dedupeFirst_set: "set (dedupeFirst xs) = set xs"
  by (simp add: dedupeFirst_def set_uniqFrom)

lemma dedupeFirst_distinct: "distinct (dedupeFirst xs)"
  by (simp add: dedupeFirst_def distinct_uniqFrom)

lemma dedupeFirst_keeps_first_occurrences: "dedupeFirst xs = rev (remdups (rev xs))"
proof -
  have "uniqFrom seen xs = rev (remdups (rev (filter (\<lambda>x. x \<notin> set seen) xs)))" for seen
  proof (induction xs arbitrary: seen)
    case Nil
    show ?case by simp
  next
    case (Cons x xs)
    have flt: "filter (\<lambda>y. y \<notin> set (seen @ [x])) xs
                 = filter (\<lambda>y. y \<noteq> x) (filter (\<lambda>y. y \<notin> set seen) xs)"
      by (induction xs) auto
    have rd: "remdups (ys @ [x]) = filter (\<lambda>y. y \<noteq> x) (remdups ys) @ [x]" for ys :: "'a list"
      by (induction ys) auto
    show ?case
      using Cons.IH [of seen] Cons.IH [of "seen @ [x]"]
      by (simp add: flt rd rev_filter remdups_filter del: set_append)
  qed
  from this [of "[]"] show ?thesis
    by (simp add: dedupeFirst_def)
qed

lemma foldl_push: "foldl push attempts xs = attempts @ uniqFrom attempts xs"
  by (induction xs arbitrary: attempts) (auto simp: push_def)

lemma foldl_pushIfAvailable:
  "foldl (pushIfAvailable available) attempts xs
     = foldl push attempts (filter (\<lambda>encoder. encoder \<in> set available) xs)"
  by (induction xs arbitrary: attempts) (auto simp: pushIfAvailable_def)

lemma buildEncoderAttempts_foldl:
  "buildEncoderAttempts available preferred
     = foldl push [] (preferred # filter (\<lambda>encoder. encoder \<in> set available) ENCODER_PRIORITY
                       @ [Libx264, Mpeg4])"
  by (simp add: buildEncoderAttempts_def Let_def foldl_pushIfAvailable)

text \<open>
  C5.  For every list of available encoders and every preferred encoder,
  \<^verbatim>\<open>buildEncoderAttempts\<close> returns the preferred encoder, then the encoders of the
  priority list that are available, then \<^verbatim>\<open>libx264\<close> and \<^verbatim>\<open>mpeg4\<close>, each kept at
  its first occurrence only; the chain is never empty; and
  \<^verbatim>\<open>buildEncoderAttempts(["h264_qsv"], "h264_nvenc")\<close> is
  \<^verbatim>\<open>["h264_nvenc","h264_qsv","libx264","mpeg4"]\<close>.
\<close>

theorem buildEncoderAttempts_chain:
  "buildEncoderAttempts available preferred = specEncoderAttempts available preferred
   \<and> buildEncoderAttempts available preferred \<noteq> []
   \<and> hd (buildEncoderAttempts available preferred) = preferred
   \<and> distinct (buildEncoderAttempts available preferred)
   \<and> buildEncoderAttempts [H264_qsv] H264_nvenc = [H264_nvenc, H264_qsv, Libx264, Mpeg4]"
proof -
  have eq: "buildEncoderAttempts available preferred = specEncoderAttempts available preferred"
    by (simp only: buildEncoderAttempts_foldl foldl_push specEncoderAttempts_def dedupeFirst_def
        append_Nil)
  have hd: "buildEncoderAttempts available preferred
              = preferred # tl (buildEncoderAttempts available preferred)"
    by (simp add: eq specEncoderAttempts_def dedupeFirst_def)
  have ex: "buildEncoderAttempts [H264_qsv] H264_nvenc = [H264_nvenc, H264_qsv, Libx264, Mpeg4]"
    by (simp add: buildEncoderAttempts_def Let_def ENCODER_PRIORITY_def pushIfAvailable_def
        push_def)
  have ne: "buildEncoderAttempts available preferred \<noteq> []"
    using hd by (metis list.distinct(1))
  have h: "hd (buildEncoderAttempts available preferred) = preferred"
    using hd by (metis list.sel(1))
  have d: "distinct (buildEncoderAttempts available preferred)"
    by (simp only: eq specEncoderAttempts_def dedupeFirst_distinct)
  from eq ne h d ex show ?thesis by blast
qed

text \<open>
  C6 (as the code has it).  With \<^verbatim>\<open>available = ["h264_nvenc","libx264"]\<close> and hint
  \<^verbatim>\<open>qsv\<close> the hinted encoder is missing, the walk over the hardware encoders finds
  \<^verbatim>\<open>h264_nvenc\<close> and returns it.  In general, when \<^verbatim>\<open>h264_qsv\<close> is not available, the
  hint \<^verbatim>\<open>qsv\<close> gives \<^verbatim>\<open>h264_nvenc\<close> if available, else \<^verbatim>\<open>h264_amf\<close> if available, else
  \<^verbatim>\<open>libx264\<close> if available, else \<^verbatim>\<open>mpeg4\<close>.
\<close>

theorem pickEncoder_hint_unavailable:
  "pickEncoder [''h264_nvenc'', ''libx264''] HintQsv = H264_nvenc
   \<and> (''h264_qsv'' \<notin> set available \<longrightarrow>
        pickEncoder available HintQsv =
          (if ''h264_nvenc'' \<in> set available then H264_nvenc
           else if ''h264_amf'' \<in> set available then H264_amf
           else if ''libx264'' \<in> set available then Libx264
           else Mpeg4))"
  by (simp add: pickEncoder_def)

theorem pickEncoder_hint_unavailable_witness:
  "pickEncoder [''libx264''] HintQsv = Libx264
   \<and> pickEncoder [''h264_amf'', ''libx264''] HintQsv = H264_amf
   \<and> pickEncoder [] HintQsv = Mpeg4"
  using pickEncoder_hint_unavailable [of "[''libx264'']"]
    pickEncoder_hint_unavailable [of "[''h264_amf'', ''libx264'']"]
    pickEncoder_hint_unavailable [of "[]"]
  by simp

theorem pickEncoder_qsv_counterexample:
  "pickEncoder [''h264_nvenc'', ''libx264''] HintQsv \<noteq> Libx264"
  by (simp add: pickEncoder_def)

section \<open>Properties of the binary64 rounding\<close>

text \<open>
  \<open>roundEven\<close> is within one half of its argument and fixes whole numbers; the exponent
  used by \<open>binary64\<close> is the one that brackets \<open>\<bar>x\<bar>\<close> between two powers of 2.
\<close>

lemma roundEven_error: "\<bar>of_int (roundEven y) - y\<bar> \<le> 1 / 2"
  unfolding roundEven_def Let_def by (simp; linarith)

lemma roundEven_of_int: "roundEven (of_int n) = n"
  by (simp add: roundEven_def)

lemma roundEven_ge: "of_int n \<le> y \<Longrightarrow> n \<le> roundEven y"
  unfolding roundEven_def Let_def by (simp add: le_floor_iff; linarith)

lemma roundEven_le: "y \<le> of_int n \<Longrightarrow> roundEven y \<le> n"
proof -
  assume a: "y \<le> of_int n"
  show ?thesis
  proof (cases "y = of_int n")
    case True
    then show ?thesis by (simp add: roundEven_of_int)
  next
    case False
    then have "y < of_int n" using a by simp
    then have "\<lfloor>y\<rfloor> < n" by (simp add: floor_less_iff)
    then show ?thesis
      unfolding roundEven_def Let_def by simp
  qed
qed

lemma exponent_bounds:
  assumes "x \<noteq> 0"
  shows "2 powr of_int \<lfloor>log 2 \<bar>x\<bar>\<rfloor> \<le> \<bar>x\<bar>" and "\<bar>x\<bar> < 2 powr (of_int \<lfloor>log 2 \<bar>x\<bar>\<rfloor> + 1)"
proof -
  have p: "0 < \<bar>x\<bar>" using assms by simp
  have "of_int \<lfloor>log 2 \<bar>x\<bar>\<rfloor> \<le> log 2 \<bar>x\<bar>" by simp
  then have "2 powr of_int \<lfloor>log 2 \<bar>x\<bar>\<rfloor> \<le> 2 powr log 2 \<bar>x\<bar>"
    by simp
  then show "2 powr of_int \<lfloor>log 2 \<bar>x\<bar>\<rfloor> \<le> \<bar>x\<bar>"
    using p by simp
  have "log 2 \<bar>x\<bar> < of_int \<lfloor>log 2 \<bar>x\<bar>\<rfloor> + 1" by linarith
  then have "2 powr log 2 \<bar>x\<bar> < 2 powr (of_int \<lfloor>log 2 \<bar>x\<bar>\<rfloor> + 1)"
    by simp
  then show "\<bar>x\<bar> < 2 powr (of_int \<lfloor>log 2 \<bar>x\<bar>\<rfloor> + 1)"
    using p by simp
qed

lemma exponent_unique:
  assumes "2 powr of_int e \<le> \<bar>x\<bar>" and "\<bar>x\<bar> < 2 powr (of_int e + 1)"
  shows "\<lfloor>log 2 \<bar>x\<bar>\<rfloor> = e"
proof -
  have p: "0 < \<bar>x\<bar>"
    using assms(1) powr_gt_zero [of 2 "of_int e"] by linarith
  have "log 2 (2 powr of_int e) \<le> log 2 \<bar>x\<bar>"
    using assms(1) p by (simp only: log_le_cancel_iff [of 2, simplified] powr_gt_zero)
  then have a: "of_int e \<le> log 2 \<bar>x\<bar>" by simp
  have "log 2 \<bar>x\<bar> < log 2 (2 powr (of_int e + 1))"
    using assms(2) p by (simp only: log_less_cancel_iff [of 2, simplified] powr_gt_zero)
  then have b: "log 2 \<bar>x\<bar> < of_int e + 1" by simp
  from a b show ?thesis by linarith
qed

lemma ulp_pow: "(2 :: real) powr (of_int e - 52) = 2 powr of_int e / 2 ^ 52"
proof -
  have "(2 :: real) powr (of_int e - 52) = 2 powr of_int e / 2 powr 52"
    by (simp only: powr_diff)
  also have "(2 :: real) powr 52 = 2 ^ 52"
    by (rule powr_numeral) simp
  finally show ?thesis .
qed

lemma binary64_error: "\<bar>binary64 x - x\<bar> \<le> 1 / 2 ^ 53 * \<bar>x\<bar>"
proof (cases "x = 0")
  case True
  then show ?thesis by (simp add: binary64_def)
next
  case False
  define e where "e = \<lfloor>log 2 \<bar>x\<bar>\<rfloor>"
  define ulp :: real where "ulp = 2 powr (of_int e - 52)"
  have up: "0 < ulp" by (simp add: ulp_def)
  have b: "binary64 x = of_int (roundEven (x / ulp)) * ulp"
    using False by (simp add: binary64_def Let_def e_def ulp_def)
  have "binary64 x - x = (of_int (roundEven (x / ulp)) - x / ulp) * ulp"
    using up by (simp add: b field_simps)
  then have "\<bar>binary64 x - x\<bar> = \<bar>of_int (roundEven (x / ulp)) - x / ulp\<bar> * ulp"
    using up by (simp add: abs_mult)
  also have "\<dots> \<le> 1 / 2 * ulp"
    using up roundEven_error [of "x / ulp"] by (intro mult_right_mono) simp_all
  also have "\<dots> = 2 powr of_int e / 2 ^ 53"
    by (simp add: ulp_def ulp_pow)
  also have "\<dots> \<le> \<bar>x\<bar> / 2 ^ 53"
    using exponent_bounds(1) [OF False] by (simp add: e_def divide_right_mono)
  finally show ?thesis by simp
qed

lemma binary64_normal:
  assumes "2 ^ k \<le> \<bar>x\<bar> * 2 ^ j" and "\<bar>x\<bar> * 2 ^ j < 2 * 2 ^ k"
  shows "binary64 x = of_int (roundEven (x * 2 ^ (52 + j) / 2 ^ k)) * 2 ^ k / 2 ^ (52 + j)"
proof -
  define e where "e = int k - int j"
  have pe: "(2 :: real) powr of_int e = 2 ^ k / 2 ^ j"
    by (simp add: e_def powr_diff powr_realpow)
  have lo: "2 powr of_int e \<le> \<bar>x\<bar>"
    using assms(1) by (simp add: pe field_simps)
  have "\<bar>x\<bar> < 2 * 2 ^ k / 2 ^ j"
    using assms(2) by (simp add: field_simps)
  also have "2 * 2 ^ k / 2 ^ j = (2 :: real) powr (of_int e + 1)"
    by (simp add: powr_add pe)
  finally have hi: "\<bar>x\<bar> < 2 powr (of_int e + 1)" .
  have ex: "\<lfloor>log 2 \<bar>x\<bar>\<rfloor> = e"
    using lo hi by (rule exponent_unique)
  have nz: "x \<noteq> 0"
    using lo powr_gt_zero [of 2 "of_int e"] by auto
  have ulp: "(2 :: real) powr (of_int e - 52) = 2 ^ k / 2 ^ (52 + j)"
    by (simp add: ulp_pow pe power_add)
  show ?thesis
    using nz by (simp add: binary64_def Let_def ex ulp)
qed

lemma binary64_zero: "binary64 0 = 0"
  by (simp add: binary64_def)

lemma binary64_nonneg:
  assumes "0 \<le> x"
  shows "0 \<le> binary64 x"
proof (cases "x = 0")
  case True
  then show ?thesis by (simp add: binary64_def)
next
  case False
  define ulp :: real where "ulp = 2 powr (of_int \<lfloor>log 2 \<bar>x\<bar>\<rfloor> - 52)"
  have up: "0 < ulp" by (simp add: ulp_def)
  have "of_int 0 \<le> x / ulp" using assms up by simp
  then have "0 \<le> roundEven (x / ulp)" by (rule roundEven_ge)
  then show ?thesis
    using False up by (simp add: binary64_def Let_def ulp_def [symmetric])
qed

lemma binary64_ge_pow:
  assumes "2 powr of_int k \<le> x"
  shows "2 powr of_int k \<le> binary64 x"
proof -
  have xp: "0 < x"
    using assms powr_gt_zero [of 2 "of_int k"] by linarith
  then have nz: "x \<noteq> 0" and ax: "\<bar>x\<bar> = x" by simp_all
  define e where "e = \<lfloor>log 2 \<bar>x\<bar>\<rfloor>"
  define ulp :: real where "ulp = 2 powr (of_int e - 52)"
  have up: "0 < ulp" by (simp add: ulp_def)
  have "log 2 (2 powr of_int k) \<le> log 2 x"
    using assms xp by (simp only: log_le_cancel_iff [of 2, simplified] powr_gt_zero)
  then have "of_int k \<le> log 2 x" by simp
  then have ke: "k \<le> e" by (simp add: e_def ax le_floor_iff)
  have "2 powr of_int e \<le> x"
    using exponent_bounds(1) [OF nz] by (simp add: e_def ax)
  then have "2 ^ 52 * ulp \<le> x"
    by (simp add: ulp_def ulp_pow)
  then have "of_int (2 ^ 52) \<le> x / ulp"
    using up by (simp add: field_simps)
  then have "2 ^ 52 \<le> roundEven (x / ulp)" by (rule roundEven_ge)
  then have "(of_int (2 ^ 52) :: real) \<le> of_int (roundEven (x / ulp))"
    by (simp only: of_int_le_iff)
  then have "(2 ^ 52 :: real) \<le> of_int (roundEven (x / ulp))"
    by simp
  then have "2 ^ 52 * ulp \<le> of_int (roundEven (x / ulp)) * ulp"
    using up by (intro mult_right_mono) simp_all
  then have "2 powr of_int e \<le> binary64 x"
    using nz by (simp add: binary64_def Let_def e_def [symmetric] ulp_def [symmetric])
       (simp add: ulp_def ulp_pow)
  moreover have "2 powr of_int k \<le> (2 :: real) powr of_int e"
    using ke by simp
  ultimately show ?thesis by linarith
qed

lemma binary64_le_pow:
  assumes "0 \<le> x" and "x \<le> 2 powr of_int k"
  shows "binary64 x \<le> 2 powr of_int k"
proof (cases "x = 0")
  case True
  then show ?thesis by (simp add: binary64_def)
next
  case False
  then have xp: "0 < x" and ax: "\<bar>x\<bar> = x" using assms(1) by simp_all
  define e where "e = \<lfloor>log 2 \<bar>x\<bar>\<rfloor>"
  define ulp :: real where "ulp = 2 powr (of_int e - 52)"
  have up: "0 < ulp" by (simp add: ulp_def)
  have b: "binary64 x = of_int (roundEven (x / ulp)) * ulp"
    using False by (simp add: binary64_def Let_def e_def ulp_def)
  have "log 2 x \<le> log 2 (2 powr of_int k)"
    using assms(2) xp by (simp only: log_le_cancel_iff [of 2, simplified] powr_gt_zero)
  then have lk: "log 2 x \<le> of_int k" by simp
  have ek: "e \<le> k"
    using lk by (simp add: e_def ax floor_le_iff)
  show ?thesis
  proof (cases "e = k")
    case True
    have "2 powr of_int e \<le> \<bar>x\<bar>"
      unfolding e_def by (rule exponent_bounds(1) [OF False])
    then have "2 powr of_int k \<le> x"
      by (simp only: ax True)
    then have x: "x = 2 powr of_int k" using assms(2) by simp
    have "x / ulp = of_int (2 ^ 52)"
      by (simp add: x ulp_def ulp_pow True)
    then have "roundEven (x / ulp) = 2 ^ 52"
      by (simp only: roundEven_of_int)
    then show ?thesis
      by (simp add: b ulp_def ulp_pow True)
  next
    case ne: False
    then have "e + 1 \<le> k" using ek by simp
    then have pk: "2 powr (of_int e + 1) \<le> (2 :: real) powr of_int k"
      by (metis of_int_1 of_int_add of_int_le_iff one_le_numeral powr_mono)
    have "\<bar>x\<bar> < 2 powr (of_int e + 1)"
      unfolding e_def by (rule exponent_bounds(2) [OF False])
    then have "x < 2 powr (of_int e + 1)"
      by (simp only: ax)
    then have "x < 2 ^ 53 * ulp"
      by (simp add: ulp_def ulp_pow powr_add)
    then have "x / ulp \<le> of_int (2 ^ 53)"
      using up by (simp add: field_simps)
    then have "roundEven (x / ulp) \<le> 2 ^ 53" by (rule roundEven_le)
    then have "of_int (roundEven (x / ulp)) \<le> (of_int (2 ^ 53) :: real)"
      by (simp only: of_int_le_iff)
    then have "of_int (roundEven (x / ulp)) \<le> (2 ^ 53 :: real)"
      by simp
    then have "of_int (roundEven (x / ulp)) * ulp \<le> 2 ^ 53 * ulp"
      using up by (intro mult_right_mono) simp_all
    also have "2 ^ 53 * ulp = 2 powr (of_int e + 1)"
      by (simp add: ulp_def ulp_pow powr_add)
    finally have "binary64 x \<le> 2 powr (of_int e + 1)"
      by (simp only: b)
    then show ?thesis
      using pk by (rule order_trans)
  qed
qed

lemma binary64_ge_one: "1 \<le> x \<Longrightarrow> 1 \<le> binary64 x"
  using binary64_ge_pow [of 0 x] by simp

lemma binary64_le_one: "0 \<le> x \<Longrightarrow> x \<le> 1 \<Longrightarrow> binary64 x \<le> 1"
  using binary64_le_pow [of x 0] by simp

lemma binary64_le_four: "0 \<le> x \<Longrightarrow> x \<le> 4 \<Longrightarrow> binary64 x \<le> 4"
proof -
  have "(2 :: real) powr of_int 2 = 4"
    by (simp add: powr_numeral)
  then show "0 \<le> x \<Longrightarrow> x \<le> 4 \<Longrightarrow> binary64 x \<le> 4"
    using binary64_le_pow [of x 2] by simp
qed

text \<open>Binary64 numbers met in the worked examples.\<close>

lemma binary64_examples:
  "binary64 1 = 1" "binary64 2 = 2" "binary64 3 = 3" "binary64 (1 / 2) = 1 / 2"
  "binary64 (22 / 25) = 7926335344172073 / 2 ^ 53"
  "binary64 (9 / 5) = 8106479329266893 / 2 ^ 52"
  "binary64 (7 / 10) = 3152519739159347 / 2 ^ 52"
  by (simp_all add: binary64_normal [where k = 0 and j = 0] binary64_normal [where k = 1 and j = 0]
      binary64_normal [where k = 0 and j = 1] roundEven_def)

section \<open>Properties of the number printing\<close>

text \<open>The recursion of \<open>natToString\<close> unfolded on numerals only, for evaluation.\<close>

lemmas natToString_eval =
  natToString.simps [of "numeral k"] natToString.simps [of 0] natToString.simps [of 1]
  natToString.simps [of "Suc 0"] for k

text \<open>
  What \<^verbatim>\<open>toSeconds\<close> and \<^verbatim>\<open>toFixed\<close> print, on examples.  The binary64 quotients
  \<^verbatim>\<open>1000.5 / 1000\<close> and \<^verbatim>\<open>4.5 / 1000\<close> lie below 1.0005 and 0.0045 and are printed
  rounded down; \<^verbatim>\<open>2.5 / 1000\<close> lies above 0.0025 and is printed rounded up.
\<close>

lemma replicate_numeral: "replicate (numeral k) x = x # replicate (pred_numeral k) x"
  by (simp add: numeral_eq_Suc)

lemma toFixed_examples:
  "toSeconds 0 = ''0.000''" "toSeconds 1000 = ''1.000''"
  "toFixed 4 2 = ''2.0000''" "toFixed 4 (1/4) = ''0.2500''" "toFixed 4 (18/10) = ''1.8000''"
  "toFixed 3 (- (1 / 10000)) = ''-0.000''" "toFixed 3 (12345678 / 10000000) = ''1.235''"
  by (simp_all add: toSeconds_def toFixed_def Let_def natToString_eval digitChar_def
      replicate_numeral binary64_zero binary64_examples)

lemma toSeconds_examples:
  "toSeconds (2001 / 2) = ''1.000''" "toSeconds (9 / 2) = ''0.004''" "toSeconds (5 / 2) = ''0.003''"
  "toSeconds (4001 / 4) = ''1.000''" "toSeconds 880 = ''0.880''"
  by (simp_all add: toSeconds_def toFixed_def Let_def natToString_eval digitChar_def
      replicate_numeral binary64_normal [where k = 0 and j = 0]
      binary64_normal [where k = 0 and j = 8] binary64_normal [where k = 0 and j = 9]
      binary64_normal [where k = 0 and j = 1] roundEven_def)

lemma digit_cases: "n < 10 \<Longrightarrow> n \<in> {0, 1, 2, 3, 4, 5, 6, 7, 8, 9 :: nat}"
  by auto

lemma digitValue_digitChar: "n < 10 \<Longrightarrow> digitValue (digitChar n) = n"
  using digit_cases [of n] by (auto simp: digitChar_def digitValue_def)

lemma digitChar_in_digits: "n < 10 \<Longrightarrow> digitChar n \<in> set ''0123456789''"
  using digit_cases [of n] by (auto simp: digitChar_def)

lemma isDigits_natToString: "isDigits (natToString n)"
proof (induction n rule: natToString.induct)
  case (1 n)
  show ?case
  proof (cases "n < 10")
    case True
    then show ?thesis
      using digitChar_in_digits [of n] by (subst natToString.simps) (simp add: isDigits_def)
  next
    case False
    have "n mod 10 < 10" by simp
    then show ?thesis
      using False 1 digitChar_in_digits [of "n mod 10"]
      by (subst natToString.simps) (simp add: isDigits_def)
  qed
qed

lemma natToString_nonempty: "natToString n \<noteq> []"
  by (subst natToString.simps) simp

lemma foldl_digits:
  "foldl (\<lambda>acc c. 10 * acc + digitValue c) a ds
     = a * 10 ^ length ds + foldl (\<lambda>acc c. 10 * acc + digitValue c) 0 ds"
proof -
  define g where "g = (\<lambda>acc c. 10 * acc + digitValue c)"
  have "foldl g a ds = a * 10 ^ length ds + foldl g 0 ds"
  proof (induction ds arbitrary: a)
    case Nil
    show ?case by simp
  next
    case (Cons d ds)
    have "foldl g (g a d) ds = g a d * 10 ^ length ds + foldl g 0 ds"
      by (rule Cons.IH)
    moreover have "foldl g (g 0 d) ds = g 0 d * 10 ^ length ds + foldl g 0 ds"
      by (rule Cons.IH)
    moreover have "g a d = 10 * a + g 0 d"
      by (simp add: g_def)
    ultimately show ?case
      by (simp add: algebra_simps)
  qed
  then show ?thesis by (simp add: g_def)
qed

lemma digitsValue_append:
  "digitsValue (xs @ ys) = digitsValue xs * 10 ^ length ys + digitsValue ys"
  unfolding digitsValue_def foldl_append
  by (rule foldl_digits)

lemma digitsValue_natToString: "digitsValue (natToString n) = n"
proof (induction n rule: natToString.induct)
  case (1 n)
  show ?case
  proof (cases "n < 10")
    case True
    then show ?thesis
      by (subst natToString.simps) (simp add: digitsValue_def digitValue_digitChar)
  next
    case False
    have "digitsValue [digitChar (n mod 10)] = n mod 10"
      by (simp add: digitsValue_def digitValue_digitChar)
    then show ?thesis
      using False 1
      by (subst natToString.simps) (simp add: digitsValue_append)
  qed
qed

lemma digitValue_zero: "digitValue (CHR ''0'') = 0"
  by (simp add: digitValue_def)

lemma digitsValue_zeros: "digitsValue (replicate k (CHR ''0'') @ ds) = digitsValue ds"
proof -
  have "digitsValue (replicate k (CHR ''0'')) = 0"
    by (induction k) (simp_all add: digitsValue_def digitValue_zero)
  then show ?thesis by (simp add: digitsValue_append)
qed

lemma isDigits_takeWhile:
  "isDigits ds \<Longrightarrow> takeWhile (\<lambda>c. c \<noteq> CHR ''.'') (ds @ rest) = ds @ takeWhile (\<lambda>c. c \<noteq> CHR ''.'') rest"
  by (rule takeWhile_append2) (auto simp: isDigits_def)

lemma isDigits_dropWhile:
  "isDigits ds \<Longrightarrow> dropWhile (\<lambda>c. c \<noteq> CHR ''.'') (ds @ rest) = dropWhile (\<lambda>c. c \<noteq> CHR ''.'') rest"
  by (rule dropWhile_append2) (auto simp: isDigits_def)

lemma isDigits_hd: "isDigits ds \<Longrightarrow> ds \<noteq> [] \<Longrightarrow> hd ds \<noteq> CHR ''-''"
  by (cases ds) (auto simp: isDigits_def)

lemma decimalValue_unsigned:
  assumes "hd s \<noteq> CHR ''-''"
  shows "decimalValue s =
     real (digitsValue (takeWhile (\<lambda>c. c \<noteq> CHR ''.'') s))
     + real (digitsValue (drop 1 (dropWhile (\<lambda>c. c \<noteq> CHR ''.'') s)))
       / 10 ^ length (drop 1 (dropWhile (\<lambda>c. c \<noteq> CHR ''.'') s))"
  using assms by (simp add: decimalValue_def Let_def)

lemma decimalValue_signed:
  "decimalValue (CHR ''-'' # s) =
     - (real (digitsValue (takeWhile (\<lambda>c. c \<noteq> CHR ''.'') s))
     + real (digitsValue (drop 1 (dropWhile (\<lambda>c. c \<noteq> CHR ''.'') s)))
       / 10 ^ length (drop 1 (dropWhile (\<lambda>c. c \<noteq> CHR ''.'') s)))"
  by (simp add: decimalValue_def Let_def)

lemma digits_point_digits:
  assumes "isDigits a" and "isDigits b"
  shows "takeWhile (\<lambda>c. c \<noteq> CHR ''.'') (a @ ''.'' @ b) = a"
    and "drop 1 (dropWhile (\<lambda>c. c \<noteq> CHR ''.'') (a @ ''.'' @ b)) = b"
  using isDigits_takeWhile [OF assms(1)] isDigits_dropWhile [OF assms(1)] by simp_all

lemma digits_only:
  assumes "isDigits a"
  shows "takeWhile (\<lambda>c. c \<noteq> CHR ''.'') a = a"
    and "drop 1 (dropWhile (\<lambda>c. c \<noteq> CHR ''.'') a) = []"
proof -
  have all: "\<forall>c \<in> set a. c \<noteq> CHR ''.''"
    using assms by (auto simp: isDigits_def)
  show "takeWhile (\<lambda>c. c \<noteq> CHR ''.'') a = a"
    using all by (simp add: takeWhile_eq_all_conv)
  have "dropWhile (\<lambda>c. c \<noteq> CHR ''.'') a = []"
    using all by (simp add: dropWhile_eq_Nil_conv)
  then show "drop 1 (dropWhile (\<lambda>c. c \<noteq> CHR ''.'') a) = []"
    by (simp only: drop_Nil)
qed

lemma magnitude_point:
  assumes "isDigits a" and "isDigits b"
  shows "real (digitsValue (takeWhile (\<lambda>c. c \<noteq> CHR ''.'') (a @ ''.'' @ b)))
     + real (digitsValue (drop 1 (dropWhile (\<lambda>c. c \<noteq> CHR ''.'') (a @ ''.'' @ b))))
       / 10 ^ length (drop 1 (dropWhile (\<lambda>c. c \<noteq> CHR ''.'') (a @ ''.'' @ b)))
     = real (digitsValue (a @ b)) / 10 ^ length b"
  unfolding digits_point_digits [OF assms]
  by (simp add: digitsValue_append field_simps)

lemma magnitude_whole:
  assumes "isDigits a"
  shows "real (digitsValue (takeWhile (\<lambda>c. c \<noteq> CHR ''.'') a))
     + real (digitsValue (drop 1 (dropWhile (\<lambda>c. c \<noteq> CHR ''.'') a)))
       / 10 ^ length (drop 1 (dropWhile (\<lambda>c. c \<noteq> CHR ''.'') a))
     = real (digitsValue a)"
  unfolding digits_only [OF assms]
  by (simp add: digitsValue_def)

lemma toFixed_fixedDigits:
  "toFixed f x = (if x < 0 then ''-'' else []) @ fixedDigits f (nat \<lfloor>\<bar>x\<bar> * 10 ^ f + 1 / 2\<rfloor>)"
  by (simp add: toFixed_def fixedDigits_def Let_def)

lemma fixedDigits_value:
  "hd (fixedDigits f n) \<noteq> CHR ''-''
   \<and> real (digitsValue (takeWhile (\<lambda>c. c \<noteq> CHR ''.'') (fixedDigits f n)))
     + real (digitsValue (drop 1 (dropWhile (\<lambda>c. c \<noteq> CHR ''.'') (fixedDigits f n))))
       / 10 ^ length (drop 1 (dropWhile (\<lambda>c. c \<noteq> CHR ''.'') (fixedDigits f n)))
     = real n / 10 ^ f"
proof -
  define m where "m = natToString n"
  define padded where
    "padded = (if length m \<le> f then replicate (f + 1 - length m) (CHR ''0'') @ m else m)"
  define a where "a = take (length padded - f) padded"
  define b where "b = drop (length padded - f) padded"
  have dm: "isDigits m" and nm: "m \<noteq> []" and vm: "digitsValue m = n"
    by (simp_all add: m_def isDigits_natToString natToString_nonempty digitsValue_natToString)
  have dp: "isDigits padded"
    using dm by (auto simp: padded_def isDigits_def)
  have vp: "digitsValue padded = n"
    by (simp add: padded_def digitsValue_zeros vm)
  have lp: "f < length padded"
    using nm by (auto simp: padded_def)
  have ab: "a @ b = padded"
    by (simp add: a_def b_def)
  have lb: "length b = f"
    using lp by (simp add: b_def)
  have da: "isDigits a" and db: "isDigits b"
    using dp by (auto simp: a_def b_def isDigits_def dest: in_set_takeD in_set_dropD)
  have na: "a \<noteq> []"
    using lp by (auto simp: a_def)
  have fd: "fixedDigits f n = (if f = 0 then padded else a @ ''.'' @ b)"
    by (simp add: fixedDigits_def Let_def m_def padded_def a_def b_def)
  show ?thesis
  proof (cases "f = 0")
    case True
    then have e: "fixedDigits f n = padded" using fd by simp
    have "padded \<noteq> []" using lp by auto
    then show ?thesis
      unfolding e using isDigits_hd [OF dp] magnitude_whole [OF dp] vp True by simp
  next
    case False
    then have e: "fixedDigits f n = a @ ''.'' @ b" using fd by simp
    have "hd (a @ ''.'' @ b) = hd a" using na by simp
    then show ?thesis
      unfolding e using isDigits_hd [OF da na] magnitude_point [OF da db] vp ab lb by simp
  qed
qed

lemma decimalValue_toFixed: "decimalValue (toFixed f x) = fixedValue f x"
proof -
  define n where "n = \<lfloor>\<bar>x\<bar> * 10 ^ f + 1 / 2\<rfloor>"
  have "0 \<le> n"
    by (simp add: n_def)
  then have rn: "real (nat n) = real_of_int n"
    by simp
  have tf: "toFixed f x = (if x < 0 then ''-'' else []) @ fixedDigits f (nat n)"
    by (simp only: toFixed_fixedDigits n_def)
  have fv: "fixedValue f x = (if x < 0 then - (real_of_int n / 10 ^ f) else real_of_int n / 10 ^ f)"
    by (simp only: fixedValue_def n_def)
  have h: "hd (fixedDigits f (nat n)) \<noteq> CHR ''-''"
    using fixedDigits_value [of f "nat n"] by blast
  have v: "real (digitsValue (takeWhile (\<lambda>c. c \<noteq> CHR ''.'') (fixedDigits f (nat n))))
     + real (digitsValue (drop 1 (dropWhile (\<lambda>c. c \<noteq> CHR ''.'') (fixedDigits f (nat n)))))
       / 10 ^ length (drop 1 (dropWhile (\<lambda>c. c \<noteq> CHR ''.'') (fixedDigits f (nat n))))
     = real_of_int n / 10 ^ f"
    using fixedDigits_value [of f "nat n"] by (simp only: rn)
  show ?thesis
  proof (cases "x < 0")
    case True
    have "decimalValue (CHR ''-'' # fixedDigits f (nat n)) = - (real_of_int n / 10 ^ f)"
      by (simp only: decimalValue_signed v)
    then show ?thesis
      using True by (simp only: tf fv if_True append_Cons append_Nil)
  next
    case False
    have "decimalValue (fixedDigits f (nat n)) = real_of_int n / 10 ^ f"
      by (simp only: decimalValue_unsigned [OF h] v)
    then show ?thesis
      using False by (simp only: tf fv if_False append_Nil)
  qed
qed

lemma fixedValue_exact:
  assumes "x * 10 ^ f \<in> \<int>"
  shows "fixedValue f x = x"
proof -
  from assms obtain k :: int where k: "x * 10 ^ f = of_int k"
    by (auto elim: Ints_cases)
  have "\<bar>x * 10 ^ f\<bar> = \<bar>of_int k\<bar>"
    using k by simp
  then have a: "\<bar>x\<bar> * 10 ^ f = of_int \<bar>k\<bar>"
    by (simp add: abs_mult)
  have "\<lfloor>\<bar>x\<bar> * 10 ^ f + 1 / 2\<rfloor> = \<bar>k\<bar>"
    unfolding a by linarith
  then have fl: "real_of_int \<lfloor>\<bar>x\<bar> * 10 ^ f + 1 / 2\<rfloor> = \<bar>x\<bar> * 10 ^ f"
    using a by simp
  show ?thesis
    unfolding fixedValue_def fl by simp
qed

text \<open>
  A number within half a unit of the last printed place of a number \<open>x\<close> that has at
  most \<open>f\<close> decimals is printed as \<open>x\<close>; the binary64 number nearest to such an \<open>x\<close>
  is one.
\<close>

lemma fixedValue_near:
  assumes "x * 10 ^ f \<in> \<int>" and "\<bar>y - x\<bar> * 10 ^ f < 1 / 2"
  shows "fixedValue f y = x"
proof -
  define p :: real where "p = 10 ^ f"
  have pp: "0 < p" by (simp add: p_def)
  from assms(1) obtain m :: int where m: "x * p = of_int m"
    by (auto elim: Ints_cases simp: p_def)
  have "\<bar>y - x\<bar> * p = \<bar>y * p - x * p\<bar>"
    using pp by (simp add: abs_mult left_diff_distrib [symmetric])
  then have d: "\<bar>y * p - of_int m\<bar> < 1 / 2"
    using assms(2) by (simp add: p_def [symmetric] m)
  have ay: "\<bar>y\<bar> * p = \<bar>y * p\<bar>"
    using pp by (simp add: abs_mult)
  have "\<bar>\<bar>y * p\<bar> - \<bar>real_of_int m\<bar>\<bar> < 1 / 2"
    using d by linarith
  then have "\<bar>real_of_int m\<bar> \<le> \<bar>y * p\<bar> + 1 / 2" and "\<bar>y * p\<bar> + 1 / 2 < \<bar>real_of_int m\<bar> + 1"
    by linarith+
  then have "real_of_int \<bar>m\<bar> \<le> \<bar>y * p\<bar> + 1 / 2" and "\<bar>y * p\<bar> + 1 / 2 < real_of_int \<bar>m\<bar> + 1"
    by (simp_all only: of_int_abs)
  then have "\<lfloor>\<bar>y\<bar> * p + 1 / 2\<rfloor> = \<bar>m\<bar>"
    unfolding ay by (rule floor_unique)
  then have fl: "real_of_int \<lfloor>\<bar>y\<bar> * 10 ^ f + 1 / 2\<rfloor> = \<bar>of_int m\<bar>"
    by (simp add: p_def)
  have x: "x = of_int m / p"
    using m pp by (simp add: field_simps)
  show ?thesis
  proof (cases "y < 0")
    case True
    then have "y * p < 0" using pp by (simp add: mult_neg_pos)
    then have "m \<le> 0" using d by linarith
    moreover have "fixedValue f y = - (\<bar>real_of_int m\<bar> / 10 ^ f)"
      using True by (simp only: fixedValue_def fl if_True)
    ultimately show ?thesis
      by (simp add: x p_def)
  next
    case False
    then have "0 \<le> y * p" using pp by simp
    then have "0 \<le> m" using d by linarith
    moreover have "fixedValue f y = \<bar>real_of_int m\<bar> / 10 ^ f"
      using False by (simp only: fixedValue_def fl if_False)
    ultimately show ?thesis
      by (simp add: x p_def)
  qed
qed

lemma fixedValue_binary64:
  assumes "x * 10 ^ f \<in> \<int>" and "\<bar>x * 10 ^ f\<bar> < 2 ^ 52"
  shows "fixedValue f (binary64 x) = x"
proof (rule fixedValue_near [OF assms(1)])
  have "\<bar>binary64 x - x\<bar> * 10 ^ f \<le> 1 / 2 ^ 53 * \<bar>x\<bar> * 10 ^ f"
    using binary64_error [of x] by (intro mult_right_mono) simp_all
  also have "\<dots> = \<bar>x * 10 ^ f\<bar> / 2 ^ 53"
    by (simp add: abs_mult)
  also have "\<dots> < 2 ^ 52 / 2 ^ 53"
    using assms(2) by (intro divide_strict_right_mono) simp_all
  finally show "\<bar>binary64 x - x\<bar> * 10 ^ f < 1 / 2"
    by simp
qed

lemma fixedValue_nonneg: "0 \<le> x \<Longrightarrow> 0 \<le> fixedValue f x"
  by (simp add: fixedValue_def)

lemma fixedValue_le_one:
  assumes "0 \<le> x" and "x \<le> 1"
  shows "fixedValue 4 x \<le> 1"
proof -
  have "\<lfloor>\<bar>x\<bar> * 10 ^ 4 + 1 / 2\<rfloor> \<le> (10000 :: int)"
    using assms by (simp add: floor_le_iff)
  then have "real_of_int \<lfloor>\<bar>x\<bar> * 10 ^ 4 + 1 / 2\<rfloor> \<le> (10000 :: real)"
    by linarith
  then show ?thesis
    using assms by (simp add: fixedValue_def field_simps)
qed

lemma literalValue_toFixed: "literalValue (toFixed f x) = binary64 (fixedValue f x)"
  by (simp add: literalValue_def decimalValue_toFixed)

lemma literalValue_toSeconds:
  "literalValue (toSeconds ms) = binary64 (fixedValue 3 (binary64 (ms / 1000)))"
  by (simp add: toSeconds_def literalValue_toFixed)

lemma literalValue_examples:
  "literalValue ''0'' = 0" "literalValue ''1'' = 1" "literalValue ''2'' = 2"
  "literalValue ''0.5'' = 1 / 2"
  by (simp_all add: literalValue_def decimalValue_def digitsValue_def digitValue_def Let_def
      binary64_zero binary64_examples)

lemma fourDecimals_nearest:
  assumes "\<bar>k\<bar> < 2 ^ 52"
  shows "fourDecimals (binary64 (of_int k / 10 ^ 4))"
proof -
  have "\<bar>real_of_int k\<bar> < 2 ^ 52"
    using assms by (metis of_int_abs of_int_less_numeral_power_cancel_iff)
  then have "fixedValue 4 (binary64 (of_int k / 10 ^ 4)) = of_int k / 10 ^ 4"
    by (intro fixedValue_binary64) simp_all
  then show ?thesis
    by (simp only: fourDecimals_def)
qed

lemma toSeconds_whole_ms:
  assumes "ms \<in> \<int>" and "\<bar>ms\<bar> < 2 ^ 52"
  shows "literalValue (toSeconds ms) = binary64 (ms / 1000)"
proof -
  have "fixedValue 3 (binary64 (ms / 1000)) = ms / 1000"
    using assms by (intro fixedValue_binary64) simp_all
  then show ?thesis
    by (simp only: literalValue_toSeconds)
qed

section \<open>Properties of the render plan compiler\<close>

lemma eval_wrapSegment:
  "eval t iw ih (wrapSegment pickValue segment expression)
     = (if coversPrinted t segment then literalValue (pickValue segment)
        else eval t iw ih expression)"
  by (simp add: wrapSegment_def coversPrinted_def)

lemma toPiecewiseExpression_foldr:
  "toPiecewiseExpression segments pickValue fallback
     = foldr (wrapSegment pickValue) segments (ELit fallback)"
  by (cases segments) (simp_all add: toPiecewiseExpression_def)

lemma eval_toPiecewiseExpression:
  "eval t iw ih (toPiecewiseExpression segments pickValue fallback)
     = (case find (coversPrinted t) segments of
          Some segment \<Rightarrow> literalValue (pickValue segment)
        | None \<Rightarrow> literalValue fallback)"
  unfolding toPiecewiseExpression_foldr
  by (induction segments) (simp_all add: eval_wrapSegment)

lemma render_wrapSegment:
  "render (wrapSegment pickValue segment expression)
     = ''if(between(t,'' @ toSeconds (startMs segment) @ '','' @ toSeconds (endMs segment)
       @ ''),'' @ pickValue segment @ '','' @ render expression @ '')''"
  by (simp add: wrapSegment_def)

text \<open>The text of the compiled expressions for one zoom from 0 to 1000 ms.\<close>

lemma expression_text_examples:
  "render (zoomExpression [zoomAt 0 1000 2 (1/4) (3/4)]) = ''if(between(t,0.000,1.000),2.0000,1)''"
  "render (cropXExpression [zoomAt 0 1000 2 (1/4) (3/4)])
     = ''max(0,min(iw*(if(between(t,0.000,1.000),2.0000,1))-iw,''
       @ ''iw*(if(between(t,0.000,1.000),0.2500,0.5))*(if(between(t,0.000,1.000),2.0000,1))-iw/2))''"
  "escapeExpressionCommas ''if(between(t,0.000,1.000),2.0000,1)''
     = ''if(between(t'' @ [CHR 0x5C] @ '',0.000'' @ [CHR 0x5C] @ '',1.000)'' @ [CHR 0x5C]
       @ '',2.0000'' @ [CHR 0x5C] @ '',1)''"
  by (simp_all add: zoomExpression_def cropXExpression_def xNormExpression_def
      toPiecewiseExpression_def wrapSegment_def pickLevel_def pickXNorm_def zoomAt_def
      toFixed_examples escapeExpressionCommas_def)

lemma coversPrinted_whole_ms:
  assumes "startMs segment \<in> \<int>" and "endMs segment \<in> \<int>"
    and "\<bar>startMs segment\<bar> < 2 ^ 52" and "\<bar>endMs segment\<bar> < 2 ^ 52"
  shows "coversPrinted t segment = coversQuotient t segment"
  unfolding coversPrinted_def coversQuotient_def
    toSeconds_whole_ms [OF assms(1,3)] toSeconds_whole_ms [OF assms(2,4)] ..

text \<open>
  C1 (as the code has it).  For every list of segments, every \<^verbatim>\<open>pickValue\<close> and every
  fallback constant, the expression \<^verbatim>\<open>toPiecewiseExpression\<close> builds, evaluated at a
  time \<open>t\<close>, is the value of the first (lowest-index) segment whose interval, as
  \<^verbatim>\<open>toSeconds\<close> prints it and the transcoder reads it, contains \<open>t\<close>, or the fallback
  constant if there is none: array order is a front-to-back priority order.  The
  printed bounds are the binary64 quotients \<^verbatim>\<open>startMs / 1000\<close> and \<^verbatim>\<open>endMs / 1000\<close>
  rounded to three decimals; when every bound is a whole number of milliseconds
  (below \<open>2^52\<close>) the interval tested is the one between these two quotients.
\<close>

theorem toPiecewiseExpression_priority:
  "eval t iw ih (toPiecewiseExpression segments pickValue fallback)
     = (case find (coversPrinted t) segments of
          Some segment \<Rightarrow> literalValue (pickValue segment)
        | None \<Rightarrow> literalValue fallback)
   \<and> ((\<forall>segment \<in> set segments.
          startMs segment \<in> \<int> \<and> endMs segment \<in> \<int>
          \<and> \<bar>startMs segment\<bar> < 2 ^ 52 \<and> \<bar>endMs segment\<bar> < 2 ^ 52)
        \<longrightarrow> eval t iw ih (toPiecewiseExpression segments pickValue fallback)
              = (case find (coversQuotient t) segments of
                   Some segment \<Rightarrow> literalValue (pickValue segment)
                 | None \<Rightarrow> literalValue fallback))"
proof -
  have "find (coversPrinted t) segments = find (coversQuotient t) segments"
    if "\<forall>segment \<in> set segments.
          startMs segment \<in> \<int> \<and> endMs segment \<in> \<int>
          \<and> \<bar>startMs segment\<bar> < 2 ^ 52 \<and> \<bar>endMs segment\<bar> < 2 ^ 52"
    using that by (induction segments) (simp_all add: coversPrinted_whole_ms)
  then show ?thesis
    by (simp add: eval_toPiecewiseExpression)
qed

text \<open>
  Two overlapping zooms, from 880 ms to 2500 ms at level 2 and from 1000 ms to 4000 ms
  at level 3: the first one wins at 1 s, the second one is seen at 3 s, the fallback
  at 5 s.
\<close>

theorem toPiecewiseExpression_priority_witness:
  "eval 1 1920 1080
      (toPiecewiseExpression [zoomAt 880 2500 2 (1/2) (1/2), zoomAt 1000 4000 3 (1/4) (1/4)] pickLevel ''1'') = 2
   \<and> eval 3 1920 1080
      (toPiecewiseExpression [zoomAt 880 2500 2 (1/2) (1/2), zoomAt 1000 4000 3 (1/4) (1/4)] pickLevel ''1'') = 3
   \<and> eval 5 1920 1080
      (toPiecewiseExpression [zoomAt 880 2500 2 (1/2) (1/2), zoomAt 1000 4000 3 (1/4) (1/4)] pickLevel ''1'') = 1"
proof -
  have ints: "\<forall>segment \<in> set [zoomAt 880 2500 2 (1/2) (1/2), zoomAt 1000 4000 3 (1/4) (1/4)].
      startMs segment \<in> \<int> \<and> endMs segment \<in> \<int>
      \<and> \<bar>startMs segment\<bar> < 2 ^ 52 \<and> \<bar>endMs segment\<bar> < 2 ^ 52"
    by (simp add: zoomAt_def)
  have q: "binary64 (22 / 25) = 7926335344172073 / 2 ^ 53" "binary64 (5 / 2) = 5 / 2"
    "binary64 1 = 1" "binary64 4 = 4"
    by (simp_all add: binary64_normal [where k = 0 and j = 1] binary64_normal [where k = 1 and j = 0]
        binary64_normal [where k = 0 and j = 0] binary64_normal [where k = 2 and j = 0] roundEven_def)
  have v: "literalValue (pickLevel (zoomAt 880 2500 2 (1/2) (1/2))) = 2"
    "literalValue (pickLevel (zoomAt 1000 4000 3 (1/4) (1/4))) = 3"
    by (simp_all add: pickLevel_def zoomAt_def literalValue_toFixed fixedValue_def binary64_examples)
  have f: "find (coversQuotient 1) [zoomAt 880 2500 2 (1/2) (1/2), zoomAt 1000 4000 3 (1/4) (1/4)]
       = Some (zoomAt 880 2500 2 (1/2) (1/2))"
    "find (coversQuotient 3) [zoomAt 880 2500 2 (1/2) (1/2), zoomAt 1000 4000 3 (1/4) (1/4)]
       = Some (zoomAt 1000 4000 3 (1/4) (1/4))"
    "find (coversQuotient 5) [zoomAt 880 2500 2 (1/2) (1/2), zoomAt 1000 4000 3 (1/4) (1/4)] = None"
    by (simp_all add: coversQuotient_def zoomAt_def q)
  have "eval 1 1920 1080 (toPiecewiseExpression [zoomAt 880 2500 2 (1/2) (1/2), zoomAt 1000 4000 3 (1/4) (1/4)] pickLevel ''1'')
      = (case find (coversQuotient 1) [zoomAt 880 2500 2 (1/2) (1/2), zoomAt 1000 4000 3 (1/4) (1/4)] of
           Some segment \<Rightarrow> literalValue (pickLevel segment)
         | None \<Rightarrow> literalValue ''1'')"
    using toPiecewiseExpression_priority [of 1 1920 1080
        "[zoomAt 880 2500 2 (1/2) (1/2), zoomAt 1000 4000 3 (1/4) (1/4)]" pickLevel "''1''"] ints
    by blast
  then have e1: "eval 1 1920 1080 (toPiecewiseExpression [zoomAt 880 2500 2 (1/2) (1/2), zoomAt 1000 4000 3 (1/4) (1/4)] pickLevel ''1'') = 2"
    by (simp only: f v literalValue_examples option.case)
  have "eval 3 1920 1080 (toPiecewiseExpression [zoomAt 880 2500 2 (1/2) (1/2), zoomAt 1000 4000 3 (1/4) (1/4)] pickLevel ''1'')
      = (case find (coversQuotient 3) [zoomAt 880 2500 2 (1/2) (1/2), zoomAt 1000 4000 3 (1/4) (1/4)] of
           Some segment \<Rightarrow> literalValue (pickLevel segment)
         | None \<Rightarrow> literalValue ''1'')"
    using toPiecewiseExpression_priority [of 3 1920 1080
        "[zoomAt 880 2500 2 (1/2) (1/2), zoomAt 1000 4000 3 (1/4) (1/4)]" pickLevel "''1''"] ints
    by blast
  then have e2: "eval 3 1920 1080 (toPiecewiseExpression [zoomAt 880 2500 2 (1/2) (1/2), zoomAt 1000 4000 3 (1/4) (1/4)] pickLevel ''1'') = 3"
    by (simp only: f v literalValue_examples option.case)
  have "eval 5 1920 1080 (toPiecewiseExpression [zoomAt 880 2500 2 (1/2) (1/2), zoomAt 1000 4000 3 (1/4) (1/4)] pickLevel ''1'')
      = (case find (coversQuotient 5) [zoomAt 880 2500 2 (1/2) (1/2), zoomAt 1000 4000 3 (1/4) (1/4)] of
           Some segment \<Rightarrow> literalValue (pickLevel segment)
         | None \<Rightarrow> literalValue ''1'')"
    using toPiecewiseExpression_priority [of 5 1920 1080
        "[zoomAt 880 2500 2 (1/2) (1/2), zoomAt 1000 4000 3 (1/4) (1/4)]" pickLevel "''1''"] ints
    by blast
  then have e3: "eval 5 1920 1080 (toPiecewiseExpression [zoomAt 880 2500 2 (1/2) (1/2), zoomAt 1000 4000 3 (1/4) (1/4)] pickLevel ''1'') = 1"
    by (simp only: f v literalValue_examples option.case)
  from e1 e2 e3 show ?thesis by blast
qed

text \<open>
  A segment from 1000.25 ms to 2000 ms with level 2, and the time \<open>1 + 1/8192\<close> s
  (1000.12 ms): the segment's interval does not contain the time, the printed interval
  \<^verbatim>\<open>[1.000, 2.000]\<close> does, so the expression gives the segment's level where the
  specification gives the fallback.  (All four numbers are binary64 numbers.)
\<close>

theorem toPiecewiseExpression_priority_counterexample:
  "eval (8193 / 8192) 1920 1080
      (toPiecewiseExpression [zoomAt (4001 / 4) 2000 2 (1/2) (1/2)] pickLevel ''1'') = 2
   \<and> specPiecewise [zoomAt (4001 / 4) 2000 2 (1/2) (1/2)] pickLevel ''1'' (8193 / 8192) = 1"
proof -
  have q: "binary64 (4001 / 4000) = 4504725527277339 / 2 ^ 52"
    by (simp add: binary64_normal [where k = 0 and j = 0] roundEven_def)
  have p: "fixedValue 3 (binary64 (4001 / 4000)) = 1" "fixedValue 3 2 = 2"
    by (simp_all add: q fixedValue_def)
  have c: "coversPrinted (8193 / 8192) (zoomAt (4001 / 4) 2000 2 (1/2) (1/2))"
    by (simp add: coversPrinted_def literalValue_toSeconds zoomAt_def p binary64_examples)
  have v: "literalValue (pickLevel (zoomAt (4001 / 4) 2000 2 (1/2) (1/2))) = 2"
    by (simp add: pickLevel_def zoomAt_def literalValue_toFixed fixedValue_def binary64_examples)
  have e: "eval (8193 / 8192) 1920 1080
      (toPiecewiseExpression [zoomAt (4001 / 4) 2000 2 (1/2) (1/2)] pickLevel ''1'') = 2"
    by (simp add: eval_toPiecewiseExpression c v)
  have s: "specPiecewise [zoomAt (4001 / 4) 2000 2 (1/2) (1/2)] pickLevel ''1'' (8193 / 8192) = 1"
    by (simp add: specPiecewise_def coversExact_def zoomAt_def literalValue_examples)
  from e s show ?thesis by simp
qed

lemma fixedValue_half: "fixedValue 4 (1 / 2) = 1 / 2"
  by (simp add: fixedValue_def)

lemma fixedValue_mono_lower:
  assumes "1 \<le> x"
  shows "1 \<le> fixedValue 4 x"
proof -
  have "(10000 :: int) \<le> \<lfloor>\<bar>x\<bar> * 10 ^ 4 + 1 / 2\<rfloor>"
    using assms by (simp add: le_floor_iff)
  then have "(10000 :: real) \<le> real_of_int \<lfloor>\<bar>x\<bar> * 10 ^ 4 + 1 / 2\<rfloor>"
    by linarith
  then show ?thesis
    using assms by (simp add: fixedValue_def field_simps)
qed

lemma fixedValue_upper:
  assumes "0 \<le> x" and "x \<le> 4"
  shows "fixedValue 4 x \<le> 4"
proof -
  have "\<lfloor>\<bar>x\<bar> * 10 ^ 4 + 1 / 2\<rfloor> \<le> (40000 :: int)"
    using assms by (simp add: floor_le_iff)
  then have "real_of_int \<lfloor>\<bar>x\<bar> * 10 ^ 4 + 1 / 2\<rfloor> \<le> (40000 :: real)"
    by linarith
  then show ?thesis
    using assms by (simp add: fixedValue_def field_simps)
qed

text \<open>
  The rounding errors of the two computations of a crop offset.  \<open>A\<close>, \<open>Hf\<close>, \<open>B\<close>, \<open>C\<close>,
  \<open>H\<close>, \<open>Vf\<close> are the rounded intermediate results of the transcoder's expression,
  \<open>T\<close>, \<open>VW\<close>, \<open>Hp\<close>, \<open>Vj\<close>, \<open>Hj\<close> those of the view transform, \<open>u\<close> the relative
  error of one operation.
\<close>

lemma clamp_error:
  fixes a b c d h v e :: real
  assumes "0 \<le> h" and "\<bar>a - h\<bar> \<le> e" and "\<bar>b - v\<bar> \<le> e" and "\<bar>c - v\<bar> \<le> e" and "\<bar>d - h\<bar> \<le> e"
  shows "\<bar>max 0 (min a b) - min (max c 0) d\<bar> \<le> 2 * e"
  using assms by linarith

lemma crop_offset_error:
  fixes W X Z u :: real
  assumes W: "0 \<le> W" and X0: "0 \<le> X" and X1: "X \<le> 1" and Z1: "1 \<le> Z"
    and u0: "0 \<le> u" and u1: "u \<le> 1 / 8"
    and rA: "\<bar>A - W * Z\<bar> \<le> u * \<bar>W * Z\<bar>"
    and rHf: "\<bar>Hf - (A - W)\<bar> \<le> u * \<bar>A - W\<bar>"
    and rB: "\<bar>B - W * X\<bar> \<le> u * \<bar>W * X\<bar>"
    and rC: "\<bar>C - B * Z\<bar> \<le> u * \<bar>B * Z\<bar>"
    and rH: "\<bar>H - W / 2\<bar> \<le> u * \<bar>W / 2\<bar>"
    and rVf: "\<bar>Vf - (C - H)\<bar> \<le> u * \<bar>C - H\<bar>"
    and rT: "\<bar>T - X * W\<bar> \<le> u * \<bar>X * W\<bar>"
    and rVW: "\<bar>VW - W / Z\<bar> \<le> u * \<bar>W / Z\<bar>"
    and rHp: "\<bar>Hp - VW / 2\<bar> \<le> u * \<bar>VW / 2\<bar>"
    and rVj: "\<bar>Vj - (T - Hp)\<bar> \<le> u * \<bar>T - Hp\<bar>"
    and rHj: "\<bar>Hj - (W - VW)\<bar> \<le> u * \<bar>W - VW\<bar>"
  shows "\<bar>max 0 (min Hf Vf) - Z * min (max Vj 0) Hj\<bar> \<le> 10 * u * (W * Z)"
proof -
  define M where "M = W * Z"
  define e where "e = u * W"
  define E where "E = u * M"
  define P where "P = W * X"
  define Q where "Q = W / Z"
  have Zp: "0 < Z" using Z1 by simp
  have WM: "W \<le> M"
    using mult_left_mono [OF Z1 W] by (simp add: M_def)
  have M0: "0 \<le> M" using W WM by simp
  have e0: "0 \<le> e" using u0 W by (simp add: e_def)
  have E0: "0 \<le> E" using u0 M0 by (simp add: E_def)
  have eE: "E = Z * e" by (simp add: E_def e_def M_def)
  have eleE: "e \<le> E"
    using mult_right_mono [OF Z1 e0] by (simp add: eE)
  have uE: "u * E \<le> E / 8"
    using mult_right_mono [OF u1 E0] by simp
  have ue: "u * e \<le> e / 8"
    using mult_right_mono [OF u1 e0] by simp
  have sc: "u * \<bar>a\<bar> \<le> u * c" if "\<bar>a\<bar> \<le> c" for a c
    using that u0 by (rule mult_left_mono)
  have P0: "0 \<le> P" using W X0 by (simp add: P_def)
  have PW: "P \<le> W"
    using mult_left_mono [OF X1 W] by (simp add: P_def)
  have Q0: "0 \<le> Q" using W Zp by (simp add: Q_def)
  have QW: "Q \<le> W"
    using W Z1 Zp by (simp add: Q_def field_simps) (metis mult_left_mono mult.right_neutral)
  have PZ0: "0 \<le> P * Z" using P0 Zp by simp
  have PZM: "P * Z \<le> M"
    using mult_right_mono [OF PW, of Z] Zp by (simp add: M_def)
  have uM: "u * M = E" by (simp add: E_def)
  have uW: "u * W = e" by (simp add: e_def)
  have uP: "u * P \<le> e"
    using mult_left_mono [OF PW u0] by (simp add: e_def)
  have uQ: "u * Q \<le> e"
    using mult_left_mono [OF QW u0] by (simp add: e_def)
  \<comment> \<open>the transcoder's side\<close>
  have A: "\<bar>A - M\<bar> \<le> E"
    using rA M0 by (simp add: M_def [symmetric] uM)
  have "\<bar>A - W\<bar> \<le> M + E"
    using A W WM by linarith
  from sc [OF this] have "u * \<bar>A - W\<bar> \<le> u * (M + E)" .
  also have "\<dots> = u * M + u * E"
    by (simp add: algebra_simps)
  finally have "u * \<bar>A - W\<bar> \<le> E + u * E"
    by (simp only: uM)
  then have Hf: "\<bar>Hf - (M - W)\<bar> \<le> 5 * E"
    using rHf A uE E0 by linarith
  have B: "\<bar>B - P\<bar> \<le> e"
    using rB P0 uP by (simp add: P_def [symmetric])
  have "\<bar>B * Z - P * Z\<bar> = \<bar>B - P\<bar> * Z"
    using Zp by (simp add: left_diff_distrib [symmetric] abs_mult)
  also have "\<dots> \<le> e * Z"
    using B Zp by (intro mult_right_mono) simp_all
  finally have BZ: "\<bar>B * Z - P * Z\<bar> \<le> E"
    by (simp add: eE mult.commute)
  have "\<bar>B * Z\<bar> \<le> M + E"
    using BZ PZ0 PZM by linarith
  from sc [OF this] have "u * \<bar>B * Z\<bar> \<le> u * (M + E)" .
  also have "\<dots> = u * M + u * E"
    by (simp add: algebra_simps)
  finally have "u * \<bar>B * Z\<bar> \<le> E + u * E"
    by (simp only: uM)
  then have C: "\<bar>C - P * Z\<bar> \<le> 17 / 8 * E"
    using rC BZ uE by linarith
  have H: "\<bar>H - W / 2\<bar> \<le> e / 2"
    using rH W by (simp add: uW)
  have "\<bar>C - H\<bar> \<le> 3 / 2 * M + 3 * E"
    using C H PZ0 PZM W WM eleE E0 by linarith
  from sc [OF this] have "u * \<bar>C - H\<bar> \<le> u * (3 / 2 * M + 3 * E)" .
  also have "\<dots> = 3 / 2 * (u * M) + 3 * (u * E)"
    by (simp add: algebra_simps)
  finally have "u * \<bar>C - H\<bar> \<le> 3 / 2 * E + 3 * (u * E)"
    by (simp only: uM)
  then have Vf: "\<bar>Vf - (P * Z - W / 2)\<bar> \<le> 5 * E"
    using rVf C H uE eleE E0 by linarith
  \<comment> \<open>the view transform's side\<close>
  have T: "\<bar>T - P\<bar> \<le> e"
    using rT P0 uP by (simp add: P_def mult.commute)
  have VW: "\<bar>VW - Q\<bar> \<le> e"
    using rVW Q0 uQ by (simp add: Q_def [symmetric])
  have "\<bar>VW / 2\<bar> \<le> W / 2 + e / 2"
    using VW Q0 QW by linarith
  from sc [OF this] have "u * \<bar>VW / 2\<bar> \<le> u * (W / 2 + e / 2)" .
  also have "\<dots> = (u * W) / 2 + u * e / 2"
    by (simp add: algebra_simps)
  finally have "u * \<bar>VW / 2\<bar> \<le> e / 2 + u * e / 2"
    by (simp only: uW)
  then have Hp: "\<bar>Hp - Q / 2\<bar> \<le> 17 / 16 * e"
    using rHp VW ue by linarith
  have "\<bar>T - Hp\<bar> \<le> 3 / 2 * W + 3 * e"
    using T Hp P0 PW Q0 QW e0 by linarith
  from sc [OF this] have "u * \<bar>T - Hp\<bar> \<le> u * (3 / 2 * W + 3 * e)" .
  also have "\<dots> = 3 / 2 * (u * W) + 3 * (u * e)"
    by (simp add: algebra_simps)
  finally have "u * \<bar>T - Hp\<bar> \<le> 3 / 2 * e + 3 * (u * e)"
    by (simp only: uW)
  then have Vj: "\<bar>Vj - (P - Q / 2)\<bar> \<le> 5 * e"
    using rVj T Hp ue e0 by linarith
  have "\<bar>W - VW\<bar> \<le> 2 * W + e"
    using VW Q0 QW W by linarith
  from sc [OF this] have "u * \<bar>W - VW\<bar> \<le> u * (2 * W + e)" .
  also have "\<dots> = 2 * (u * W) + u * e"
    by (simp add: algebra_simps)
  finally have "u * \<bar>W - VW\<bar> \<le> 2 * e + u * e"
    by (simp only: uW)
  then have Hj: "\<bar>Hj - (W - Q)\<bar> \<le> 5 * e"
    using rHj VW ue e0 by linarith
  have ZQ: "Z * Q = W" using Zp by (simp add: Q_def)
  have "\<bar>Z * Vj - (P * Z - W / 2)\<bar> = Z * \<bar>Vj - (P - Q / 2)\<bar>"
  proof -
    have "Z * Vj - (P * Z - W / 2) = Z * (Vj - (P - Q / 2))"
      using ZQ by (simp add: algebra_simps)
    then show ?thesis using Zp by (simp add: abs_mult)
  qed
  also have "\<dots> \<le> Z * (5 * e)"
    using Vj Zp by (intro mult_left_mono) simp_all
  finally have ZVj: "\<bar>Z * Vj - (P * Z - W / 2)\<bar> \<le> 5 * E"
    by (simp add: eE)
  have "\<bar>Z * Hj - (M - W)\<bar> = Z * \<bar>Hj - (W - Q)\<bar>"
  proof -
    have "Z * Hj - (M - W) = Z * (Hj - (W - Q))"
      using ZQ by (simp add: algebra_simps M_def)
    then show ?thesis using Zp by (simp add: abs_mult)
  qed
  also have "\<dots> \<le> Z * (5 * e)"
    using Hj Zp by (intro mult_left_mono) simp_all
  finally have ZHj: "\<bar>Z * Hj - (M - W)\<bar> \<le> 5 * E"
    by (simp add: eE)
  have "Z * min (max Vj 0) Hj = min (max (Z * Vj) 0) (Z * Hj)"
    using Zp by (simp add: min_mult_distrib_left max_mult_distrib_left)
  moreover have "\<bar>max 0 (min Hf Vf) - min (max (Z * Vj) 0) (Z * Hj)\<bar> \<le> 2 * (5 * E)"
    using WM Hf Vf ZVj ZHj by (intro clamp_error [where h = "M - W" and v = "P * Z - W / 2"]) simp_all
  ultimately show ?thesis
    by (simp add: E_def M_def)
qed

lemma crop_axis_error:
  assumes "0 \<le> W" and "0 \<le> X" and "X \<le> 1" and "1 \<le> Z"
  shows "\<bar>max 0 (min (binary64 (binary64 (W * Z) - W))
                     (binary64 (binary64 (binary64 (W * X) * Z) - binary64 (W / 2))))
         - Z * min (max (binary64 (binary64 (X * W) - binary64 (binary64 (W / Z) / 2))) 0)
                   (binary64 (W - binary64 (W / Z)))\<bar>
       \<le> 10 * (W * Z) / 2 ^ 53"
proof -
  have u0: "(0 :: real) \<le> 1 / 2 ^ 53" and u1: "(1 :: real) / 2 ^ 53 \<le> 1 / 8"
    by simp_all
  have "\<bar>max 0 (min (binary64 (binary64 (W * Z) - W))
                     (binary64 (binary64 (binary64 (W * X) * Z) - binary64 (W / 2))))
         - Z * min (max (binary64 (binary64 (X * W) - binary64 (binary64 (W / Z) / 2))) 0)
                   (binary64 (W - binary64 (W / Z)))\<bar>
       \<le> 10 * (1 / 2 ^ 53) * (W * Z)"
    by (rule crop_offset_error [OF assms u0 u1 binary64_error binary64_error binary64_error
          binary64_error binary64_error binary64_error binary64_error binary64_error
          binary64_error binary64_error binary64_error])
  then show ?thesis by simp
qed

lemma eval_expressions_at:
  assumes "find (coversPrinted t) activeZooms = Some segment"
  shows "eval t iw ih (zoomExpression activeZooms) = literalValue (pickLevel segment)"
    and "eval t iw ih (xNormExpression activeZooms) = literalValue (pickXNorm segment)"
    and "eval t iw ih (yNormExpression activeZooms) = literalValue (pickYNorm segment)"
  using assms
  by (simp_all add: zoomExpression_def xNormExpression_def yNormExpression_def
      eval_toPiecewiseExpression)

lemma eval_crop_at:
  assumes "find (coversPrinted t) activeZooms = Some segment"
  shows "eval t iw ih (cropXExpression activeZooms)
     = max 0 (min (binary64 (binary64 (iw * literalValue (pickLevel segment)) - iw))
                  (binary64 (binary64 (binary64 (iw * literalValue (pickXNorm segment))
                                         * literalValue (pickLevel segment))
                             - binary64 (iw / 2))))"
   and "eval t iw ih (cropYExpression activeZooms)
     = max 0 (min (binary64 (binary64 (ih * literalValue (pickLevel segment)) - ih))
                  (binary64 (binary64 (binary64 (ih * literalValue (pickYNorm segment))
                                         * literalValue (pickLevel segment))
                             - binary64 (ih / 2))))"
  by (simp_all add: cropXExpression_def cropYExpression_def eval_expressions_at [OF assms]
      literalValue_examples)

lemma computeViewTransform_at:
  assumes "1 \<le> level z" and "level z \<le> 4"
    and "(case manualTarget z of Some p \<Rightarrow> p | None \<Rightarrow> \<lparr>xNorm = 1 / 2, yNorm = 1 / 2\<rparr>)
           = \<lparr>xNorm = x, yNorm = y\<rparr>"
  shows "computeViewTransform (Some z) frameWidth frameHeight
     = \<lparr>scale = level z,
        xPx = min (max (binary64 (binary64 (x * frameWidth) - binary64 (binary64 (frameWidth / level z) / 2))) 0)
                  (binary64 (frameWidth - binary64 (frameWidth / level z))),
        yPx = min (max (binary64 (binary64 (y * frameHeight) - binary64 (binary64 (frameHeight / level z) / 2))) 0)
                  (binary64 (frameHeight - binary64 (frameHeight / level z)))\<rparr>"
proof -
  have cl: "clamp (level z) 1 4 = level z"
    using assms(1,2) by (simp add: clamp_def)
  show ?thesis
    unfolding computeViewTransform_def option.case Let_def cl assms(3)
    by (simp add: clamp_def)
qed

lemma roundedZoom_exact:
  assumes "fourDecimals (level segment)"
    and "\<forall>p. manualTarget segment = Some p \<longrightarrow> fourDecimals (xNorm p) \<and> fourDecimals (yNorm p)"
  shows "roundedZoom segment = segment"
proof -
  have l: "literalValue (toFixed 4 (level segment)) = level segment"
    using assms(1) by (simp add: literalValue_toFixed fourDecimals_def)
  show ?thesis
  proof (cases "manualTarget segment")
    case None
    then show ?thesis
      by (simp add: roundedZoom_def l)
  next
    case (Some p)
    then have "fourDecimals (xNorm p)" and "fourDecimals (yNorm p)"
      using assms(2) by auto
    then have "literalValue (toFixed 4 (xNorm p)) = xNorm p"
      and "literalValue (toFixed 4 (yNorm p)) = yNorm p"
      by (simp_all add: literalValue_toFixed fourDecimals_def)
    moreover have "\<lparr>xNorm = xNorm p, yNorm = yNorm p\<rparr> = p"
      by simp
    ultimately show ?thesis
      using Some by (simp add: roundedZoom_def l)
  qed
qed

text \<open>
  C2 (as the code has it).  For a time \<open>t\<close> at which \<open>segment\<close> is the first active zoom
  whose printed interval contains \<open>t\<close>, with \<open>level \<le> 4\<close> (it is above 1, being
  active) and a target in the unit square, and for every frame of a width and a height
  of at least 1 and below \<open>2^53\<close> bound to \<^verbatim>\<open>iw\<close> and \<^verbatim>\<open>ih\<close>: the crop offsets \<^verbatim>\<open>cropX\<close>
  and \<^verbatim>\<open>cropY\<close> that the transcoder computes from the compiled expressions differ from
  \<open>scale * xPx\<close> and \<open>scale * yPx\<close> of \<^verbatim>\<open>computeViewTransform\<close> by at most
  \<open>10 * 2^(-53)\<close> times the size of the scaled frame, for that frame and for the zoom
  as the expressions hold it (level and target printed by \<^verbatim>\<open>toFixed(4)\<close>).  The two are
  computed by different binary64 operations and are not equal in general.  For a
  level and a target that are binary64 numbers nearest to numbers of at most four
  decimals, the zoom the expressions hold is the zoom itself.  (The offsets are in
  pixels of the zoom-scaled frame, those of the view transform in pixels of the
  unscaled one.  For frame sizes in the given range every intermediate result of the
  two computations is 0 or of a magnitude between \<open>2^(-66)\<close> and \<open>2^55\<close>, where
  \<open>binary64\<close> is the IEEE 754 rounding.)
\<close>

theorem crop_matches_view_transform:
  assumes "find (coversPrinted t) (activeZoomsOf project) = Some segment"
    and "level segment \<le> 4"
    and "\<forall>p. manualTarget segment = Some p \<longrightarrow>
           0 \<le> xNorm p \<and> xNorm p \<le> 1 \<and> 0 \<le> yNorm p \<and> yNorm p \<le> 1"
    and "1 \<le> frameWidth" and "frameWidth < 2 ^ 53"
    and "1 \<le> frameHeight" and "frameHeight < 2 ^ 53"
  shows "\<bar>eval t frameWidth frameHeight (cropXExpression (activeZoomsOf project))
           - scale (computeViewTransform (Some (roundedZoom segment)) frameWidth frameHeight)
             * xPx (computeViewTransform (Some (roundedZoom segment)) frameWidth frameHeight)\<bar>
          \<le> 10 * (frameWidth
                    * scale (computeViewTransform (Some (roundedZoom segment)) frameWidth frameHeight))
               / 2 ^ 53
     \<and> \<bar>eval t frameWidth frameHeight (cropYExpression (activeZoomsOf project))
           - scale (computeViewTransform (Some (roundedZoom segment)) frameWidth frameHeight)
             * yPx (computeViewTransform (Some (roundedZoom segment)) frameWidth frameHeight)\<bar>
          \<le> 10 * (frameHeight
                    * scale (computeViewTransform (Some (roundedZoom segment)) frameWidth frameHeight))
               / 2 ^ 53
     \<and> (fourDecimals (level segment)
          \<and> (\<forall>p. manualTarget segment = Some p \<longrightarrow>
                 fourDecimals (xNorm p) \<and> fourDecimals (yNorm p))
        \<longrightarrow> roundedZoom segment = segment)"
proof -
  have "segment \<in> set (activeZoomsOf project)"
    using assms(1) by (auto simp: find_Some_iff)
  then have lv: "1 < level segment"
    by (simp add: activeZoomsOf_def)
  define z where "z = literalValue (pickLevel segment)"
  define x where "x = literalValue (pickXNorm segment)"
  define y where "y = literalValue (pickYNorm segment)"
  have zl: "z = literalValue (toFixed 4 (level segment))"
    using lv by (simp add: z_def pickLevel_def)
  have z1: "1 \<le> z"
    unfolding zl literalValue_toFixed
    using lv by (intro binary64_ge_one fixedValue_mono_lower) simp
  have z4: "z \<le> 4"
    unfolding zl literalValue_toFixed
    using lv assms(2) by (intro binary64_le_four fixedValue_upper fixedValue_nonneg) simp_all
  have unit: "0 \<le> literalValue (toFixed 4 v) \<and> literalValue (toFixed 4 v) \<le> 1"
    if "0 \<le> v" and "v \<le> 1" for v
    unfolding literalValue_toFixed
    using that by (intro conjI binary64_nonneg binary64_le_one fixedValue_nonneg fixedValue_le_one)
  have xs: "0 \<le> x \<and> x \<le> 1" and ys: "0 \<le> y \<and> y \<le> 1"
    using assms(3) unit [of "1 / 2"]
    by (cases "manualTarget segment"; simp add: x_def y_def pickXNorm_def pickYNorm_def unit)+
  have half: "literalValue (toFixed 4 (1 / 2)) = 1 / 2"
    by (simp add: literalValue_toFixed fixedValue_half binary64_examples)
  have tg: "(case manualTarget (roundedZoom segment) of Some p \<Rightarrow> p | None \<Rightarrow> \<lparr>xNorm = 1 / 2, yNorm = 1 / 2\<rparr>)
      = \<lparr>xNorm = x, yNorm = y\<rparr>"
    by (cases "manualTarget segment")
      (simp_all add: roundedZoom_def x_def y_def pickXNorm_def pickYNorm_def half)
  have lr: "level (roundedZoom segment) = z"
    by (simp add: roundedZoom_def zl)
  have vt: "computeViewTransform (Some (roundedZoom segment)) frameWidth frameHeight
      = \<lparr>scale = z,
         xPx = min (max (binary64 (binary64 (x * frameWidth) - binary64 (binary64 (frameWidth / z) / 2))) 0)
                   (binary64 (frameWidth - binary64 (frameWidth / z))),
         yPx = min (max (binary64 (binary64 (y * frameHeight) - binary64 (binary64 (frameHeight / z) / 2))) 0)
                   (binary64 (frameHeight - binary64 (frameHeight / z)))\<rparr>"
    using computeViewTransform_at [of "roundedZoom segment" x y frameWidth frameHeight] z1 z4 tg
    by (simp only: lr)
  have ex: "eval t frameWidth frameHeight (cropXExpression (activeZoomsOf project))
      = max 0 (min (binary64 (binary64 (frameWidth * z) - frameWidth))
                   (binary64 (binary64 (binary64 (frameWidth * x) * z) - binary64 (frameWidth / 2))))"
    by (simp only: eval_crop_at(1) [OF assms(1)] z_def x_def)
  have ey: "eval t frameWidth frameHeight (cropYExpression (activeZoomsOf project))
      = max 0 (min (binary64 (binary64 (frameHeight * z) - frameHeight))
                   (binary64 (binary64 (binary64 (frameHeight * y) * z) - binary64 (frameHeight / 2))))"
    by (simp only: eval_crop_at(2) [OF assms(1)] z_def y_def)
  have bx: "\<bar>eval t frameWidth frameHeight (cropXExpression (activeZoomsOf project))
           - scale (computeViewTransform (Some (roundedZoom segment)) frameWidth frameHeight)
             * xPx (computeViewTransform (Some (roundedZoom segment)) frameWidth frameHeight)\<bar>
          \<le> 10 * (frameWidth
                    * scale (computeViewTransform (Some (roundedZoom segment)) frameWidth frameHeight))
               / 2 ^ 53"
    unfolding ex vt ViewTransform.simps
    using assms(4) xs z1 by (intro crop_axis_error) simp_all
  have by': "\<bar>eval t frameWidth frameHeight (cropYExpression (activeZoomsOf project))
           - scale (computeViewTransform (Some (roundedZoom segment)) frameWidth frameHeight)
             * yPx (computeViewTransform (Some (roundedZoom segment)) frameWidth frameHeight)\<bar>
          \<le> 10 * (frameHeight
                    * scale (computeViewTransform (Some (roundedZoom segment)) frameWidth frameHeight))
               / 2 ^ 53"
    unfolding ey vt ViewTransform.simps
    using assms(6) ys z1 by (intro crop_axis_error) simp_all
  from bx by' roundedZoom_exact [of segment] show ?thesis
    by blast
qed

text \<open>
  A worked example: the zoom from 0 to 1000 ms with the level \<^verbatim>\<open>1.8\<close> and the target
  \<^verbatim>\<open>(0.7, 0.5)\<close> (\<open>exampleZoom\<close>), on a frame of 1920 by 1080 at the time 0.5 s.  The
  rounded results of the single operations, in the order in which the transcoder and
  the view transform compute them:
\<close>

lemma exampleZoom_fields:
  "level exampleZoom = 8106479329266893 / 2 ^ 52"
  "manualTarget exampleZoom = Some \<lparr>xNorm = 3152519739159347 / 2 ^ 52, yNorm = 1 / 2\<rparr>"
  "activeZoomsOf (projectWith [exampleZoom]) = [exampleZoom]"
  "find (coversPrinted (1 / 2)) [exampleZoom] = Some exampleZoom"
  by (simp_all add: exampleZoom_def zoomAt_def binary64_examples activeZoomsOf_def projectWith_def
      coversPrinted_def literalValue_toSeconds binary64_zero fixedValue_def)

lemma exampleZoom_printed:
  "literalValue (pickLevel exampleZoom) = 8106479329266893 / 2 ^ 52"
  "literalValue (pickXNorm exampleZoom) = 3152519739159347 / 2 ^ 52"
  "literalValue (pickYNorm exampleZoom) = 1 / 2"
  by (simp_all add: pickLevel_def pickXNorm_def pickYNorm_def exampleZoom_def zoomAt_def
      literalValue_toFixed binary64_examples fixedValue_def)

lemma exampleZoom_fourDecimals:
  "fourDecimals (level exampleZoom)"
  "\<forall>p. manualTarget exampleZoom = Some p \<longrightarrow> fourDecimals (xNorm p) \<and> fourDecimals (yNorm p)"
  by (simp_all add: exampleZoom_def zoomAt_def fourDecimals_def binary64_examples fixedValue_def)

lemma exampleZoom_transcoder:
  "binary64 (1920 * (8106479329266893 / 2 ^ 52)) = 3456"
  "binary64 (3456 - 1920) = 1536"
  "binary64 (1920 * (3152519739159347 / 2 ^ 52)) = 1344"
  "binary64 (1344 * (8106479329266893 / 2 ^ 52)) = 5319877059831399 / 2 ^ 41"
  "binary64 (1920 / 2) = 960"
  "binary64 (5319877059831399 / 2 ^ 41 - 960) = 6417629469002958 / 2 ^ 42"
  by (simp_all add: binary64_normal [where k = 11 and j = 0] binary64_normal [where k = 10 and j = 0]
      binary64_normal [where k = 9 and j = 0] roundEven_def)

lemma exampleZoom_viewTransform:
  "binary64 (3152519739159347 / 2 ^ 52 * 1920) = 1344"
  "binary64 (1920 / (8106479329266893 / 2 ^ 52)) = 4691249611844267 / 2 ^ 42"
  "binary64 (4691249611844267 / 2 ^ 42 / 2) = 4691249611844267 / 2 ^ 43"
  "binary64 (1344 - 4691249611844267 / 2 ^ 43) = 7130699410003285 / 2 ^ 43"
  "binary64 (1920 - 4691249611844267 / 2 ^ 42) = 3752999689475413 / 2 ^ 42"
  "binary64 (8106479329266893 / 2 ^ 52 * (7130699410003285 / 2 ^ 43)) = 6417629469002957 / 2 ^ 42"
  by (simp_all add: binary64_normal [where k = 10 and j = 0] binary64_normal [where k = 9 and j = 0]
      roundEven_def)

theorem crop_matches_view_transform_witness:
  "\<bar>eval (1 / 2) 1920 1080 (cropXExpression (activeZoomsOf (projectWith [exampleZoom])))
       - scale (computeViewTransform (Some exampleZoom) 1920 1080)
         * xPx (computeViewTransform (Some exampleZoom) 1920 1080)\<bar>
      \<le> 10 * (1920 * scale (computeViewTransform (Some exampleZoom) 1920 1080)) / 2 ^ 53
   \<and> \<bar>eval (1 / 2) 1920 1080 (cropYExpression (activeZoomsOf (projectWith [exampleZoom])))
       - scale (computeViewTransform (Some exampleZoom) 1920 1080)
         * yPx (computeViewTransform (Some exampleZoom) 1920 1080)\<bar>
      \<le> 10 * (1080 * scale (computeViewTransform (Some exampleZoom) 1920 1080)) / 2 ^ 53
   \<and> roundedZoom exampleZoom = exampleZoom"
proof -
  have f: "find (coversPrinted (1 / 2)) (activeZoomsOf (projectWith [exampleZoom])) = Some exampleZoom"
    by (simp only: exampleZoom_fields)
  have l: "level exampleZoom \<le> 4"
    by (simp add: exampleZoom_fields)
  have u: "\<forall>p. manualTarget exampleZoom = Some p \<longrightarrow>
      0 \<le> xNorm p \<and> xNorm p \<le> 1 \<and> 0 \<le> yNorm p \<and> yNorm p \<le> 1"
    by (simp add: exampleZoom_fields)
  have w: "(1 :: real) \<le> 1920" "(1920 :: real) < 2 ^ 53" "(1 :: real) \<le> 1080" "(1080 :: real) < 2 ^ 53"
    by simp_all
  have r: "roundedZoom exampleZoom = exampleZoom"
    using crop_matches_view_transform [OF f l u w] exampleZoom_fourDecimals by blast
  show ?thesis
    using crop_matches_view_transform [OF f l u w] exampleZoom_fourDecimals
    unfolding r by blast
qed

text \<open>
  For \<open>exampleZoom\<close> the transcoder computes the crop offset
  \<open>6417629469002958 / 2^42\<close> (\<^verbatim>\<open>1459.2000000000003\<close>), while \<open>scale * xPx\<close> of the view
  transform is a number between the two binary64 numbers next below it, and is
  \<open>6417629469002957 / 2^42\<close> (\<^verbatim>\<open>1459.2\<close>) when the product is itself computed in
  binary64.
\<close>

theorem crop_matches_view_transform_counterexample:
  "eval (1 / 2) 1920 1080 (cropXExpression (activeZoomsOf (projectWith [exampleZoom])))
     \<noteq> scale (computeViewTransform (Some exampleZoom) 1920 1080)
       * xPx (computeViewTransform (Some exampleZoom) 1920 1080)
   \<and> eval (1 / 2) 1920 1080 (cropXExpression (activeZoomsOf (projectWith [exampleZoom])))
     = 6417629469002958 / 2 ^ 42
   \<and> scale (computeViewTransform (Some exampleZoom) 1920 1080) = 8106479329266893 / 2 ^ 52
   \<and> xPx (computeViewTransform (Some exampleZoom) 1920 1080) = 7130699410003285 / 2 ^ 43
   \<and> binary64 (scale (computeViewTransform (Some exampleZoom) 1920 1080)
         * xPx (computeViewTransform (Some exampleZoom) 1920 1080))
     = 6417629469002957 / 2 ^ 42"
proof -
  have "eval (1 / 2) 1920 1080 (cropXExpression [exampleZoom])
      = max 0 (min (binary64 (binary64 (1920 * (8106479329266893 / 2 ^ 52)) - 1920))
                   (binary64 (binary64 (binary64 (1920 * (3152519739159347 / 2 ^ 52))
                                          * (8106479329266893 / 2 ^ 52))
                              - binary64 (1920 / 2))))"
    by (simp only: eval_crop_at(1) [OF exampleZoom_fields(4)] exampleZoom_printed)
  also have "\<dots> = max 0 (min 1536 (6417629469002958 / 2 ^ 42))"
    by (simp only: exampleZoom_transcoder)
  also have "\<dots> = 6417629469002958 / 2 ^ 42"
    by simp
  finally have e: "eval (1 / 2) 1920 1080 (cropXExpression (activeZoomsOf (projectWith [exampleZoom])))
      = 6417629469002958 / 2 ^ 42"
    by (simp only: exampleZoom_fields(3))
  have lv: "1 \<le> level exampleZoom" "level exampleZoom \<le> 4"
    by (simp_all add: exampleZoom_fields)
  have tg: "(case manualTarget exampleZoom of Some p \<Rightarrow> p | None \<Rightarrow> \<lparr>xNorm = 1 / 2, yNorm = 1 / 2\<rparr>)
      = \<lparr>xNorm = 3152519739159347 / 2 ^ 52, yNorm = 1 / 2\<rparr>"
    by (simp only: exampleZoom_fields(2) option.case)
  have s: "scale (computeViewTransform (Some exampleZoom) 1920 1080) = 8106479329266893 / 2 ^ 52"
    by (simp only: computeViewTransform_at [OF lv tg] ViewTransform.select_convs exampleZoom_fields(1))
  have "xPx (computeViewTransform (Some exampleZoom) 1920 1080)
      = min (max (binary64 (binary64 (3152519739159347 / 2 ^ 52 * 1920)
                            - binary64 (binary64 (1920 / (8106479329266893 / 2 ^ 52)) / 2))) 0)
            (binary64 (1920 - binary64 (1920 / (8106479329266893 / 2 ^ 52))))"
    by (simp only: computeViewTransform_at [OF lv tg] ViewTransform.select_convs exampleZoom_fields(1))
  also have "\<dots> = min (max (7130699410003285 / 2 ^ 43) 0) (3752999689475413 / 2 ^ 42)"
    by (simp only: exampleZoom_viewTransform)
  also have "\<dots> = 7130699410003285 / 2 ^ 43"
    by simp
  finally have x: "xPx (computeViewTransform (Some exampleZoom) 1920 1080) = 7130699410003285 / 2 ^ 43" .
  have p: "binary64 (scale (computeViewTransform (Some exampleZoom) 1920 1080)
         * xPx (computeViewTransform (Some exampleZoom) 1920 1080)) = 6417629469002957 / 2 ^ 42"
    by (simp only: s x exampleZoom_viewTransform)
  have n: "eval (1 / 2) 1920 1080 (cropXExpression (activeZoomsOf (projectWith [exampleZoom])))
     \<noteq> scale (computeViewTransform (Some exampleZoom) 1920 1080)
       * xPx (computeViewTransform (Some exampleZoom) 1920 1080)"
    unfolding e s x by simp
  from n e s x p show ?thesis by blast
qed

lemma createForegroundFilter_active:
  "activeZoomsOf project = activeZoomsOf project' \<Longrightarrow>
   background (timeline project) = background (timeline project') \<Longrightarrow>
   createForegroundFilter project settings = createForegroundFilter project' settings"
  by (simp add: createForegroundFilter_def computeFrameMargin_def Let_def)

text \<open>
  C9.  The filter graph depends on the zoom list only through the segments that are not
  disabled and have a level above 1: the graph of a timeline is the graph of the same
  timeline with its zoom list replaced by those segments, and when every zoom segment
  has a level of at most 1 (disabled or not) it is the graph of the timeline with an
  empty zoom list.
\<close>

theorem createFilterGraph_only_active_zooms:
  "createFilterGraph project settings
     = createFilterGraph
         (project\<lparr>timeline := (timeline project)\<lparr>zooms := activeZoomsOf project\<rparr>\<rparr>) settings
   \<and> ((\<forall>segment \<in> set (zooms (timeline project)). level segment \<le> 1) \<longrightarrow>
        createFilterGraph project settings
          = createFilterGraph (project\<lparr>timeline := (timeline project)\<lparr>zooms := []\<rparr>\<rparr>) settings)"
proof -
  have a: "activeZoomsOf (project\<lparr>timeline := (timeline project)\<lparr>zooms := activeZoomsOf project\<rparr>\<rparr>)
      = activeZoomsOf project"
    by (simp add: activeZoomsOf_def)
  have b: "activeZoomsOf project = activeZoomsOf (project\<lparr>timeline := (timeline project)\<lparr>zooms := []\<rparr>\<rparr>)"
    if "\<forall>segment \<in> set (zooms (timeline project)). level segment \<le> 1"
  proof -
    have "filter (\<lambda>segment. \<not> disabled segment \<and> level segment > 1) (zooms (timeline project)) = []"
      using that by (auto simp: filter_empty_conv)
    then show ?thesis by (simp add: activeZoomsOf_def)
  qed
  have 1: "createFilterGraph project settings
     = createFilterGraph
         (project\<lparr>timeline := (timeline project)\<lparr>zooms := activeZoomsOf project\<rparr>\<rparr>) settings"
    using createForegroundFilter_active [of project
        "project\<lparr>timeline := (timeline project)\<lparr>zooms := activeZoomsOf project\<rparr>\<rparr>" settings] a
    by (simp add: createFilterGraph_def Let_def)
  have 2: "createFilterGraph project settings
          = createFilterGraph (project\<lparr>timeline := (timeline project)\<lparr>zooms := []\<rparr>\<rparr>) settings"
    if "\<forall>segment \<in> set (zooms (timeline project)). level segment \<le> 1"
    using createForegroundFilter_active [of project
        "project\<lparr>timeline := (timeline project)\<lparr>zooms := []\<rparr>\<rparr>" settings] b [OF that]
    by (simp add: createFilterGraph_def Let_def)
  from 1 2 show ?thesis by blast
qed

theorem createFilterGraph_only_active_zooms_witness:
  "createFilterGraph (projectWith [zoomAt 0 1000 1 (1/4) (3/4)]) (exportSettings (projectWith []))
     = createFilterGraph (projectWith []) (exportSettings (projectWith []))"
proof -
  have p: "(projectWith [zoomAt 0 1000 1 (1/4) (3/4)])
      \<lparr>timeline := (timeline (projectWith [zoomAt 0 1000 1 (1/4) (3/4)]))\<lparr>zooms := []\<rparr>\<rparr> = projectWith []"
    by (simp add: projectWith_def)
  have l: "\<forall>segment \<in> set (zooms (timeline (projectWith [zoomAt 0 1000 1 (1/4) (3/4)]))). level segment \<le> 1"
    by (simp add: projectWith_def zoomAt_def)
  have "createFilterGraph (projectWith [zoomAt 0 1000 1 (1/4) (3/4)]) (exportSettings (projectWith []))
      = createFilterGraph ((projectWith [zoomAt 0 1000 1 (1/4) (3/4)])
          \<lparr>timeline := (timeline (projectWith [zoomAt 0 1000 1 (1/4) (3/4)]))\<lparr>zooms := []\<rparr>\<rparr>)
          (exportSettings (projectWith []))"
    using createFilterGraph_only_active_zooms [of "projectWith [zoomAt 0 1000 1 (1/4) (3/4)]"
        "exportSettings (projectWith [])"] l
    by blast
  then show ?thesis
    by (simp only: p)
qed

section \<open>Properties of the render executor\<close>

lemma runRender_ok_iff:
  "fst (runRender proc plan fs) = Inr u
     \<longleftrightarrow> (\<exists>stderrLines. fst (proc plan fs) = Exit (Some 0) stderrLines)"
  by (cases "proc plan fs"; cases "fst (proc plan fs)")
     (auto simp: runRender_def Let_def)

lemma runRender_files: "snd (runRender proc plan fs) = snd (proc plan fs)"
  by (cases "proc plan fs"; cases "fst (proc plan fs)")
     (auto simp: runRender_def Let_def)

lemma attempt_succeeded_iff:
  "fst (attempt proc job enc w) = Succeeded
     \<longleftrightarrow> (\<exists>fs1 stderrLines fs2.
            clearOutput (files w) (resolvedOutput job) = Inr fs1
          \<and> proc (planFor job enc) fs1 = (Exit (Some 0) stderrLines, fs2)
          \<and> existsSync fs2 (resolvedOutput job))"
proof (cases "clearOutput (files w) (resolvedOutput job)")
  case (Inl e)
  then show ?thesis by (simp add: attempt_def)
next
  case (Inr fs1)
  obtain r fs2 where rr: "runRender proc (planFor job enc) fs1 = (r, fs2)"
    by (cases "runRender proc (planFor job enc) fs1")
  have fs2: "fs2 = snd (proc (planFor job enc) fs1)"
    using runRender_files [of proc "planFor job enc" fs1] rr by simp
  have ok: "(\<exists>u. r = Inr u) \<longleftrightarrow> (\<exists>stderrLines. fst (proc (planFor job enc) fs1) = Exit (Some 0) stderrLines)"
    using runRender_ok_iff [of proc "planFor job enc" fs1 "()"] rr by auto
  have "fst (attempt proc job enc w) = Succeeded
      \<longleftrightarrow> (\<exists>u. r = Inr u) \<and> existsSync fs2 (resolvedOutput job)"
    by (cases r) (simp_all add: attempt_def Inr rr Let_def)
  also have "\<dots> \<longleftrightarrow> (\<exists>stderrLines. proc (planFor job enc) fs1 = (Exit (Some 0) stderrLines, fs2))
      \<and> existsSync fs2 (resolvedOutput job)"
    unfolding ok fs2 by (cases "proc (planFor job enc) fs1") auto
  finally show ?thesis
    unfolding Inr fs2 by (cases "proc (planFor job enc) fs1") auto
qed

lemma attempt_spawned:
  "\<forall>e. fst (attempt proc job enc w) \<noteq> Escaped e \<Longrightarrow>
   spawned (snd (attempt proc job enc w)) = spawned w @ [planFor job enc]"
  by (auto simp: attempt_def Let_def split: sum.splits prod.splits if_splits)

lemma attemptLoop_succeeded:
  assumes "fst (attempt proc job enc w) = Succeeded"
  shows "attemptLoop proc job encoderAttempts (enc # rest) lastError w
           = (Inr (Exported (resolvedOutput job) enc), snd (attempt proc job enc w))"
  using assms by (cases "attempt proc job enc w") simp

lemma attemptLoop_failed:
  assumes "fst (attempt proc job enc w) = Failed e"
  shows "attemptLoop proc job encoderAttempts (enc # rest) lastError w
           = attemptLoop proc job encoderAttempts rest (Some e)
               (notify job (failedNotice enc) (snd (attempt proc job enc w)))"
  using assms by (cases "attempt proc job enc w") simp

lemma notify_spawned [simp]: "spawned (notify job line w) = spawned w"
  by (simp add: notify_def)

lemma notify_files [simp]: "files (notify job line w) = files w"
  by (simp add: notify_def)

lemma planFor_encoder [simp]: "encoder (planFor job enc) = enc"
  by (simp add: planFor_def createRenderPlan_def Let_def)

lemma planFor_outputPath [simp]: "outputPath (planFor job enc) = resolvedOutput job"
  by (simp add: planFor_def createRenderPlan_def Let_def)

lemma attemptLoop_exhausted:
  assumes "attemptOutcomes proc job rest w = map Failed errs" and "length errs = length rest"
  shows "\<exists>w'. attemptLoop proc job encoderAttempts rest lastError w
           = (Inl (Error (exhaustedMessage encoderAttempts
                 (if errs = [] then lastError else Some (last errs)))), w')
         \<and> map encoder (spawned w') = map encoder (spawned w) @ rest"
  using assms
proof (induction rest arbitrary: errs lastError w)
  case Nil
  then show ?case by simp
next
  case (Cons enc rest)
  obtain err errs' where errs: "errs = err # errs'"
    using Cons.prems(2) by (cases errs) auto
  obtain outcome w1 where a: "attempt proc job enc w = (outcome, w1)"
    by (cases "attempt proc job enc w")
  have o: "outcome = Failed err"
    and rest: "attemptOutcomes proc job rest (notify job (failedNotice enc) w1) = map Failed errs'"
    using Cons.prems(1) a errs by (cases outcome; simp)+
  have len: "length errs' = length rest"
    using Cons.prems(2) errs by simp
  have sp: "spawned w1 = spawned w @ [planFor job enc]"
    using attempt_spawned [of proc job enc w] a o by simp
  from Cons.IH [OF rest len, of "Some err"]
  obtain w' where w': "attemptLoop proc job encoderAttempts rest (Some err)
        (notify job (failedNotice enc) w1)
      = (Inl (Error (exhaustedMessage encoderAttempts
           (if errs' = [] then Some err else Some (last errs')))), w')"
    and sw: "map encoder (spawned w') = map encoder (spawned (notify job (failedNotice enc) w1)) @ rest"
    by blast
  have "attemptLoop proc job encoderAttempts (enc # rest) lastError w
      = (Inl (Error (exhaustedMessage encoderAttempts (Some (last errs)))), w')"
    using a o w' errs by simp
  moreover have "map encoder (spawned w') = map encoder (spawned w) @ enc # rest"
    using sw sp by simp
  ultimately show ?case using errs by auto
qed

lemma attempt_escaped_world:
  "fst (attempt proc job enc w) = Escaped e \<Longrightarrow> snd (attempt proc job enc w) = w"
  by (auto simp: attempt_def Let_def split: sum.splits prod.splits if_splits)

lemma attemptLoop_spawns:
  "attemptLoop proc job encoderAttempts rest lastError w = (r, w') \<Longrightarrow>
   \<exists>more. spawned w' = spawned w @ more \<and> ((\<exists>x. r = Inr x) \<longrightarrow> more \<noteq> [])"
proof (induction rest arbitrary: lastError w)
  case Nil
  then show ?case by auto
next
  case (Cons enc rest)
  obtain outcome w1 where a: "attempt proc job enc w = (outcome, w1)"
    by (cases "attempt proc job enc w")
  show ?case
  proof (cases outcome)
    case Succeeded
    then have "spawned w1 = spawned w @ [planFor job enc]"
      using attempt_spawned [of proc job enc w] a by simp
    moreover have "w' = w1"
      using Cons.prems a Succeeded by simp
    ultimately show ?thesis by simp
  next
    case (Failed e)
    then have sp: "spawned w1 = spawned w @ [planFor job enc]"
      using attempt_spawned [of proc job enc w] a by simp
    have "attemptLoop proc job encoderAttempts rest (Some e) (notify job (failedNotice enc) w1) = (r, w')"
      using Cons.prems a Failed by simp
    from Cons.IH [OF this] obtain more where
      "spawned w' = spawned (notify job (failedNotice enc) w1) @ more" by blast
    then have "spawned w' = spawned w @ (planFor job enc # more)"
      using sp by simp
    then show ?thesis by blast
  next
    case (Escaped e)
    then have "w1 = w"
      using attempt_escaped_world [of proc job enc w e] a by simp
    moreover have "r = Inl e" and "w' = w1"
      using Cons.prems a Escaped by simp_all
    ultimately show ?thesis by simp
  qed
qed

lemma attemptLoop_immediate_iff:
  "(\<exists>w'. attemptLoop proc job encoderAttempts (enc # rest) lastError w
            = (Inr (Exported (resolvedOutput job) enc), w')
        \<and> spawned w' = spawned w @ [planFor job enc])
   \<longleftrightarrow> fst (attempt proc job enc w) = Succeeded"
proof
  assume "fst (attempt proc job enc w) = Succeeded"
  then show "\<exists>w'. attemptLoop proc job encoderAttempts (enc # rest) lastError w
            = (Inr (Exported (resolvedOutput job) enc), w')
        \<and> spawned w' = spawned w @ [planFor job enc]"
    using attemptLoop_succeeded [of proc job enc w encoderAttempts rest lastError]
      attempt_spawned [of proc job enc w] by simp
next
  assume "\<exists>w'. attemptLoop proc job encoderAttempts (enc # rest) lastError w
            = (Inr (Exported (resolvedOutput job) enc), w')
        \<and> spawned w' = spawned w @ [planFor job enc]"
  then obtain w' where l: "attemptLoop proc job encoderAttempts (enc # rest) lastError w
            = (Inr (Exported (resolvedOutput job) enc), w')"
    and s: "spawned w' = spawned w @ [planFor job enc]"
    by blast
  obtain outcome w1 where a: "attempt proc job enc w = (outcome, w1)"
    by (cases "attempt proc job enc w")
  show "fst (attempt proc job enc w) = Succeeded"
  proof (cases outcome)
    case Succeeded
    then show ?thesis using a by simp
  next
    case (Escaped e)
    then show ?thesis using l a by simp
  next
    case (Failed e)
    then have sp: "spawned w1 = spawned w @ [planFor job enc]"
      using attempt_spawned [of proc job enc w] a by simp
    have "attemptLoop proc job encoderAttempts rest (Some e) (notify job (failedNotice enc) w1)
        = (Inr (Exported (resolvedOutput job) enc), w')"
      using l a Failed by simp
    from attemptLoop_spawns [OF this] obtain more where
      "spawned w' = spawned (notify job (failedNotice enc) w1) @ more" and "more \<noteq> []"
      by blast
    then have "spawned w' = spawned w @ planFor job enc # more" and "more \<noteq> []"
      using sp by simp_all
    then show ?thesis using s by simp
  qed
qed

lemma renderProjectToMp4_given_output:
  assumes "outputPathArgument request = Some path" and "path \<noteq> []"
    and "backgroundType (background (timeline (loadedProject request))) \<noteq> Image"
  shows "renderProjectToMp4 proc request w =
     attemptLoop proc
       \<lparr>jobProject = loadedProject request, screenTrackPath = loadedScreenTrackPath request,
        jobFfmpegPath = envFfmpegPath request, resolvedOutput = path,
        jobBackgroundImagePath = None, windowOpen = mainWindowOpen request\<rparr>
       (buildEncoderAttempts (probedEncoders request)
          (pickEncoder (map encoderName (probedEncoders request))
             (encoderHint (exportSettings (loadedProject request)))))
       (buildEncoderAttempts (probedEncoders request)
          (pickEncoder (map encoderName (probedEncoders request))
             (encoderHint (exportSettings (loadedProject request)))))
       None w"
  using assms by (simp add: renderProjectToMp4_def Let_def)

lemma sublist_joinWith:
  "x \<in> set xs \<Longrightarrow> sublist x (joinWith separator xs)"
proof (induction separator xs rule: joinWith.induct)
  case (1 separator)
  then show ?case by simp
next
  case (2 separator y)
  then show ?case by simp
next
  case (3 separator y z rest)
  show ?case
  proof (cases "x = y")
    case True
    then show ?thesis
      by (simp add: sublist_append)
  next
    case False
    then have "sublist x (joinWith separator (z # rest))"
      using 3 by simp
    then show ?thesis
      by (simp add: sublist_append)
  qed
qed

lemma exhaustedMessage_names:
  assumes "enc \<in> set encoderAttempts"
  shows "sublist (encoderName enc) (exhaustedMessage encoderAttempts lastError)"
proof -
  have "sublist (encoderName enc) (joinWith '', '' (map encoderName encoderAttempts))"
    using assms by (intro sublist_joinWith) simp
  also have "sublist (joinWith '', '' (map encoderName encoderAttempts))
      (exhaustedMessage encoderAttempts lastError)"
    unfolding exhaustedMessage_def by (rule sublist_appendI)
  finally show ?thesis .
qed

lemma exhaustedMessage_last:
  "suffix (message e) (exhaustedMessage encoderAttempts (Some e))"
  unfolding exhaustedMessage_def option.case
  by (intro suffix_appendI) simp

lemma exampleJob_output [simp]: "resolvedOutput exampleJob = ''out.mp4''"
  by (simp add: exampleJob_def)

lemma code_one: "codeToString (Some 1) = ''1''"
  by (simp add: codeToString_def intToString_def natToString_eval digitChar_def)

lemma attempt_softwareOnly:
  "attempt softwareOnly exampleJob Libx264 (worldWith node)
     = (if node = Some Directory
        then (Escaped (Error ''EISDIR: illegal operation on a directory, unlink out.mp4''), worldWith node)
        else (Succeeded,
              \<lparr>files = (\<lambda>path. None)(''out.mp4'' \<mapsto> File ''video''),
               spawned = [planFor exampleJob Libx264], notices = []\<rparr>))"
proof (cases node)
  case None
  then show ?thesis
    by (simp add: attempt_def clearOutput_def existsSync_def runRender_def softwareOnly_def
        worldWith_def Let_def)
next
  case (Some n)
  then show ?thesis
    by (cases n)
      (simp_all add: attempt_def clearOutput_def existsSync_def unlinkSync_def runRender_def
        softwareOnly_def worldWith_def Let_def)
qed

lemma attempt_noEncoder:
  "files w ''out.mp4'' = None \<Longrightarrow>
   attempt noEncoder exampleJob enc w
     = (Failed (Error (''FFmpeg exited with code 1.'' @ [CHR 0x0A] @ ''Unknown encoder'')),
        w\<lparr>spawned := spawned w @ [planFor exampleJob enc]\<rparr>)"
  by (simp add: attempt_def clearOutput_def existsSync_def runRender_def noEncoder_def
      Let_def code_one pushTail_def)

text \<open>
  C3.  In the retry loop of \<^verbatim>\<open>renderProjectToMp4\<close>, from any state: an attempt succeeds
  exactly when the transcoder, started on the file system the defensive delete leaves,
  closes with exit code 0 and the output path exists afterwards; and it succeeds exactly
  when the loop ends at once with that encoder, after this one spawn and whatever
  encoders remain.  If every attempt of a non-empty chain fails, the operation fails
  with the error \<^verbatim>\<open>Failed to export MP4 after trying encoders: NAMES. MESSAGE\<close>, after
  one spawn per encoder of the chain: it holds the name of every encoder of the chain
  and ends with the message of the last attempt's error.
\<close>

theorem renderProjectToMp4_retry:
  "(fst (attempt proc job enc w) = Succeeded
      \<longleftrightarrow> (\<exists>fs1 stderrLines fs2.
             clearOutput (files w) (resolvedOutput job) = Inr fs1
           \<and> proc (planFor job enc) fs1 = (Exit (Some 0) stderrLines, fs2)
           \<and> existsSync fs2 (resolvedOutput job)))
   \<and> (fst (attempt proc job enc w) = Succeeded
      \<longleftrightarrow> (\<exists>w'. attemptLoop proc job encoderAttempts (enc # rest) lastError w
                  = (Inr (Exported (resolvedOutput job) enc), w')
              \<and> spawned w' = spawned w @ [planFor job enc]))
   \<and> (encoderAttempts \<noteq> []
        \<and> attemptOutcomes proc job encoderAttempts w = map Failed errs
        \<and> length errs = length encoderAttempts \<longrightarrow>
        (\<exists>w'. attemptLoop proc job encoderAttempts encoderAttempts None w
                 = (Inl (Error (''Failed to export MP4 after trying encoders: ''
                      @ joinWith '', '' (map encoderName encoderAttempts) @ ''. ''
                      @ message (last errs))), w')
             \<and> map encoder (spawned w') = map encoder (spawned w) @ encoderAttempts)
        \<and> (\<forall>e \<in> set encoderAttempts.
              sublist (encoderName e)
                (''Failed to export MP4 after trying encoders: ''
                   @ joinWith '', '' (map encoderName encoderAttempts) @ ''. ''
                   @ message (last errs)))
        \<and> suffix (message (last errs))
              (''Failed to export MP4 after trying encoders: ''
                 @ joinWith '', '' (map encoderName encoderAttempts) @ ''. ''
                 @ message (last errs)))"
proof (intro conjI impI)
  show "fst (attempt proc job enc w) = Succeeded
      \<longleftrightarrow> (\<exists>fs1 stderrLines fs2.
             clearOutput (files w) (resolvedOutput job) = Inr fs1
           \<and> proc (planFor job enc) fs1 = (Exit (Some 0) stderrLines, fs2)
           \<and> existsSync fs2 (resolvedOutput job))"
    by (rule attempt_succeeded_iff)
next
  show "fst (attempt proc job enc w) = Succeeded
      \<longleftrightarrow> (\<exists>w'. attemptLoop proc job encoderAttempts (enc # rest) lastError w
                  = (Inr (Exported (resolvedOutput job) enc), w')
              \<and> spawned w' = spawned w @ [planFor job enc])"
    by (rule attemptLoop_immediate_iff [symmetric])
next
  assume a: "encoderAttempts \<noteq> []
        \<and> attemptOutcomes proc job encoderAttempts w = map Failed errs
        \<and> length errs = length encoderAttempts"
  then have ne: "errs \<noteq> []" by auto
  have m: "exhaustedMessage encoderAttempts (Some (last errs))
      = ''Failed to export MP4 after trying encoders: ''
          @ joinWith '', '' (map encoderName encoderAttempts) @ ''. '' @ message (last errs)"
    by (simp add: exhaustedMessage_def)
  show "\<exists>w'. attemptLoop proc job encoderAttempts encoderAttempts None w
                 = (Inl (Error (''Failed to export MP4 after trying encoders: ''
                      @ joinWith '', '' (map encoderName encoderAttempts) @ ''. ''
                      @ message (last errs))), w')
             \<and> map encoder (spawned w') = map encoder (spawned w) @ encoderAttempts"
    using attemptLoop_exhausted [of proc job encoderAttempts w errs encoderAttempts None] a ne
    by (simp only: m [symmetric] if_False)
  show "\<forall>e \<in> set encoderAttempts.
              sublist (encoderName e)
                (''Failed to export MP4 after trying encoders: ''
                   @ joinWith '', '' (map encoderName encoderAttempts) @ ''. ''
                   @ message (last errs))"
    using exhaustedMessage_names [of _ encoderAttempts "Some (last errs)"]
    by (simp only: m [symmetric]) blast
  show "suffix (message (last errs))
              (''Failed to export MP4 after trying encoders: ''
                 @ joinWith '', '' (map encoderName encoderAttempts) @ ''. ''
                 @ message (last errs))"
    using exhaustedMessage_last [of "last errs" encoderAttempts]
    by (simp only: m [symmetric])
qed

theorem renderProjectToMp4_retry_witness:
  "fst (attempt softwareOnly exampleJob Libx264 (worldWith (Some (File ''old'')))) = Succeeded
   \<and> fst (attemptLoop softwareOnly exampleJob [Libx264, Mpeg4] [Libx264, Mpeg4] None
           (worldWith (Some (File ''old''))))
       = Inr (Exported ''out.mp4'' Libx264)
   \<and> spawned (snd (attemptLoop softwareOnly exampleJob [Libx264, Mpeg4] [Libx264, Mpeg4] None
           (worldWith (Some (File ''old'')))))
       = [planFor exampleJob Libx264]
   \<and> fst (attemptLoop noEncoder exampleJob [Libx264, Mpeg4] [Libx264, Mpeg4] None (worldWith None))
       = Inl (Error (''Failed to export MP4 after trying encoders: libx264, mpeg4. ''
               @ ''FFmpeg exited with code 1.'' @ [CHR 0x0A] @ ''Unknown encoder''))"
proof -
  let ?e = "Error (''FFmpeg exited with code 1.'' @ [CHR 0x0A] @ ''Unknown encoder'')"
  have s: "fst (attempt softwareOnly exampleJob Libx264 (worldWith (Some (File ''old'')))) = Succeeded"
    by (simp add: attempt_softwareOnly)
  have o: "attemptOutcomes noEncoder exampleJob [Libx264, Mpeg4] (worldWith None)
      = map Failed [?e, ?e]"
    by (simp add: attempt_noEncoder worldWith_def)
  have "\<exists>w'. attemptLoop softwareOnly exampleJob [Libx264, Mpeg4] [Libx264, Mpeg4] None
           (worldWith (Some (File ''old'')))
       = (Inr (Exported (resolvedOutput exampleJob) Libx264), w')
     \<and> spawned w' = spawned (worldWith (Some (File ''old''))) @ [planFor exampleJob Libx264]"
    using renderProjectToMp4_retry [where proc = softwareOnly and job = exampleJob
        and enc = Libx264 and w = "worldWith (Some (File ''old''))"
        and encoderAttempts = "[Libx264, Mpeg4]" and rest = "[Mpeg4]" and lastError = None] s
    by blast
  then obtain w1 where a: "attemptLoop softwareOnly exampleJob [Libx264, Mpeg4] [Libx264, Mpeg4] None
           (worldWith (Some (File ''old'')))
       = (Inr (Exported (resolvedOutput exampleJob) Libx264), w1)"
    and a': "spawned w1 = spawned (worldWith (Some (File ''old''))) @ [planFor exampleJob Libx264]"
    by blast
  have b: "\<exists>w'. attemptLoop noEncoder exampleJob [Libx264, Mpeg4] [Libx264, Mpeg4] None (worldWith None)
       = (Inl (Error (''Failed to export MP4 after trying encoders: ''
                      @ joinWith '', '' (map encoderName [Libx264, Mpeg4]) @ ''. ''
                      @ message (last [?e, ?e]))), w')"
    using renderProjectToMp4_retry [where proc = noEncoder and job = exampleJob
        and w = "worldWith None" and encoderAttempts = "[Libx264, Mpeg4]" and errs = "[?e, ?e]"] o
    by (simp del: attemptLoop.simps attemptOutcomes.simps) blast
  from b obtain w' where b': "attemptLoop noEncoder exampleJob [Libx264, Mpeg4] [Libx264, Mpeg4] None (worldWith None)
       = (Inl (Error (''Failed to export MP4 after trying encoders: ''
                      @ joinWith '', '' (map encoderName [Libx264, Mpeg4]) @ ''. ''
                      @ message (last [?e, ?e]))), w')"
    by blast
  show ?thesis
    using s a a' b' by (simp add: worldWith_def del: attemptLoop.simps)
qed

lemma clearOutput_file:
  "clearOutput (fs(path \<mapsto> File content)) path = Inr (fs(path := None))"
  by (simp add: clearOutput_def existsSync_def unlinkSync_def)

lemma clearOutput_absent:
  "clearOutput (fs(path := None)) path = Inr (fs(path := None))"
  by (simp add: clearOutput_def existsSync_def)

lemma attempt_ignores_old_output:
  "attempt proc job enc (w\<lparr>files := (files w)(resolvedOutput job \<mapsto> File content)\<rparr>)
     = attempt proc job enc (w\<lparr>files := (files w)(resolvedOutput job := None)\<rparr>)"
  by (simp add: attempt_def clearOutput_file clearOutput_absent)

text \<open>
  C10.  At the start of every attempt, the first one included (the state and the last
  error are arbitrary), a file at the resolved output path is deleted.  So the attempt,
  and the whole loop from there, run exactly as if no file had been at the path: the
  old file reaches no transcoder, and if the transcoder exits with code 0 and leaves
  nothing at the path, the attempt fails with
  \<^verbatim>\<open>Render completed but output was not created.\<close> although a file was there before.
\<close>

theorem output_cleared_before_every_attempt:
  "clearOutput ((files w)(resolvedOutput job \<mapsto> File content)) (resolvedOutput job)
     = Inr ((files w)(resolvedOutput job := None))
   \<and> attempt proc job enc (w\<lparr>files := (files w)(resolvedOutput job \<mapsto> File content)\<rparr>)
     = attempt proc job enc (w\<lparr>files := (files w)(resolvedOutput job := None)\<rparr>)
   \<and> attemptLoop proc job encoderAttempts (enc # rest) lastError
         (w\<lparr>files := (files w)(resolvedOutput job \<mapsto> File content)\<rparr>)
     = attemptLoop proc job encoderAttempts (enc # rest) lastError
         (w\<lparr>files := (files w)(resolvedOutput job := None)\<rparr>)
   \<and> ((\<exists>stderrLines fs2.
          proc (planFor job enc) ((files w)(resolvedOutput job := None)) = (Exit (Some 0) stderrLines, fs2)
          \<and> fs2 (resolvedOutput job) = None)
        \<longrightarrow> fst (attempt proc job enc (w\<lparr>files := (files w)(resolvedOutput job \<mapsto> File content)\<rparr>))
              = Failed (Error ''Render completed but output was not created.''))"
proof (intro conjI impI)
  show "clearOutput ((files w)(resolvedOutput job \<mapsto> File content)) (resolvedOutput job)
     = Inr ((files w)(resolvedOutput job := None))"
    by (rule clearOutput_file)
  show "attempt proc job enc (w\<lparr>files := (files w)(resolvedOutput job \<mapsto> File content)\<rparr>)
     = attempt proc job enc (w\<lparr>files := (files w)(resolvedOutput job := None)\<rparr>)"
    by (rule attempt_ignores_old_output)
  show "attemptLoop proc job encoderAttempts (enc # rest) lastError
         (w\<lparr>files := (files w)(resolvedOutput job \<mapsto> File content)\<rparr>)
     = attemptLoop proc job encoderAttempts (enc # rest) lastError
         (w\<lparr>files := (files w)(resolvedOutput job := None)\<rparr>)"
    by (simp only: attemptLoop.simps attempt_ignores_old_output)
next
  assume "\<exists>stderrLines fs2.
          proc (planFor job enc) ((files w)(resolvedOutput job := None)) = (Exit (Some 0) stderrLines, fs2)
          \<and> fs2 (resolvedOutput job) = None"
  then obtain stderrLines fs2 where
    p: "proc (planFor job enc) ((files w)(resolvedOutput job := None)) = (Exit (Some 0) stderrLines, fs2)"
    and n: "fs2 (resolvedOutput job) = None"
    by blast
  show "fst (attempt proc job enc (w\<lparr>files := (files w)(resolvedOutput job \<mapsto> File content)\<rparr>))
              = Failed (Error ''Render completed but output was not created.'')"
    by (simp add: attempt_def clearOutput_file runRender_def p n existsSync_def)
qed

theorem output_cleared_before_every_attempt_witness:
  "fst (attempt idle exampleJob Libx264 (worldWith (Some (File ''old''))))
     = Failed (Error ''Render completed but output was not created.'')
   \<and> attempt idle exampleJob Libx264 (worldWith (Some (File ''old'')))
     = attempt idle exampleJob Libx264 (worldWith None)"
proof -
  have w: "worldWith (Some (File ''old''))
      = (worldWith None)\<lparr>files := (files (worldWith None))(resolvedOutput exampleJob \<mapsto> File ''old'')\<rparr>"
    "worldWith None
      = (worldWith None)\<lparr>files := (files (worldWith None))(resolvedOutput exampleJob := None)\<rparr>"
    by (simp_all add: worldWith_def)
  have p: "\<exists>stderrLines fs2.
      idle (planFor exampleJob Libx264) ((files (worldWith None))(resolvedOutput exampleJob := None))
        = (Exit (Some 0) stderrLines, fs2) \<and> fs2 (resolvedOutput exampleJob) = None"
    by (simp add: idle_def worldWith_def)
  have k: "fst (attempt idle exampleJob Libx264
        ((worldWith None)\<lparr>files := (files (worldWith None))(resolvedOutput exampleJob \<mapsto> File ''old'')\<rparr>))
      = Failed (Error ''Render completed but output was not created.'')
    \<and> attempt idle exampleJob Libx264
        ((worldWith None)\<lparr>files := (files (worldWith None))(resolvedOutput exampleJob \<mapsto> File ''old'')\<rparr>)
      = attempt idle exampleJob Libx264
        ((worldWith None)\<lparr>files := (files (worldWith None))(resolvedOutput exampleJob := None)\<rparr>)"
    using output_cleared_before_every_attempt [where w = "worldWith None" and job = exampleJob
        and content = "''old''" and proc = idle and enc = Libx264] p
    by blast
  from k [unfolded w [symmetric]] show ?thesis .
qed

end
